theory Spec2Isabelle
  imports Main "HOL-Library.AList"
begin

text \<open>
  A shallow embedding of \<^verbatim>\<open>src/data-manager.js\<close>, the persistence module of the Perfect Wood
  application. \<^verbatim>\<open>DataManager\<close> reads and writes three JSON documents (the core records and two
  transaction logs), either through a host object \<^verbatim>\<open>window.electronAPI\<close> or, in a browser,
  through \<^verbatim>\<open>localStorage\<close> under three fixed keys.

  The module is a thin wrapper around the platform: \<^verbatim>\<open>JSON.parse\<close>, \<^verbatim>\<open>JSON.stringify\<close>,
  \<^verbatim>\<open>localStorage\<close> and JavaScript's object references. These are modelled first (JSON text, then
  the heap of objects), the functions of \<^verbatim>\<open>DataManager\<close> after them, each under the name it
  has in the source.
\<close>

section \<open>JSON values and JSON text\<close>

text \<open>
  A JSON document as a tree. Numbers are restricted to integers (JavaScript numbers are
  doubles; fractions and exponents are outside the model). An object is the list of its
  properties in enumeration order; a JavaScript object holds each property name once, which
  is the predicate \<open>wf_json\<close> below.
\<close>

datatype json =
    JNull
  | JBool bool
  | JNum int
  | JStr string
  | JArray "json list"
  | JObject "(string \<times> json) list"

subsection \<open>\<^verbatim>\<open>JSON.stringify\<close> on a tree\<close>

definition digit_char :: "nat \<Rightarrow> char" where
  "digit_char d = char_of (48 + d)"

fun show_nat :: "nat \<Rightarrow> string" where
  "show_nat n = (if n < 10 then [digit_char n] else show_nat (n div 10) @ [digit_char (n mod 10)])"

declare show_nat.simps [simp del]

definition show_int :: "int \<Rightarrow> string" where
  "show_int i = (if i < 0 then CHR ''-'' # show_nat (nat (- i)) else show_nat (nat i))"

text \<open>
  Inside a string literal the double quote (0x22), the backslash (0x5C), line feed, carriage
  return and tab are written as two-character escapes; every other character stands for
  itself (Unicode escapes are outside the model).
\<close>

definition escape_char :: "char \<Rightarrow> string" where
  "escape_char c =
     (if c = CHR 0x22 then [CHR 0x5C, CHR 0x22]
      else if c = CHR 0x5C then [CHR 0x5C, CHR 0x5C]
      else if c = CHR 0x0A then [CHR 0x5C, CHR ''n'']
      else if c = CHR 0x0D then [CHR 0x5C, CHR ''r'']
      else if c = CHR 0x09 then [CHR 0x5C, CHR ''t'']
      else [c])"

definition quote :: "string \<Rightarrow> string" where
  "quote s = CHR 0x22 # concat (map escape_char s) @ [CHR 0x22]"

fun join_commas :: "string list \<Rightarrow> string" where
  "join_commas [] = []"
| "join_commas [x] = x"
| "join_commas (x # y # ys) = x @ CHR '','' # join_commas (y # ys)"

text \<open>The compact form that \<^verbatim>\<open>JSON.stringify(value)\<close> produces: no white space.\<close>

fun stringify_json :: "json \<Rightarrow> string" where
  "stringify_json JNull = ''null''"
| "stringify_json (JBool b) = (if b then ''true'' else ''false'')"
| "stringify_json (JNum i) = show_int i"
| "stringify_json (JStr s) = quote s"
| "stringify_json (JArray xs) = CHR ''['' # join_commas (map stringify_json xs) @ '']''"
| "stringify_json (JObject kvs) =
     CHR ''{'' # join_commas (map (\<lambda>(k, v). quote k @ CHR '':'' # stringify_json v) kvs) @ ''}''"

subsection \<open>\<^verbatim>\<open>JSON.parse\<close> to a tree\<close>

definition is_ws :: "char \<Rightarrow> bool" where
  "is_ws c = (c = CHR '' '' \<or> c = CHR 0x09 \<or> c = CHR 0x0A \<or> c = CHR 0x0D)"

definition skip_ws :: "string \<Rightarrow> string" where
  "skip_ws s = dropWhile is_ws s"

definition is_digit :: "char \<Rightarrow> bool" where
  "is_digit c = (48 \<le> (of_char c :: nat) \<and> (of_char c :: nat) \<le> 57)"

definition digits_value :: "string \<Rightarrow> nat" where
  "digits_value ds = foldl (\<lambda>a c. 10 * a + (of_char c - 48)) 0 ds"

text \<open>A run of digits; as in JSON, a number of several digits does not start with 0.\<close>

definition parse_nat :: "string \<Rightarrow> (nat \<times> string) option" where
  "parse_nat s =
     (let ds = takeWhile is_digit s; r = dropWhile is_digit s
      in if ds = [] \<or> (1 < length ds \<and> hd ds = CHR ''0'') then None
         else Some (digits_value ds, r))"

definition parse_number :: "string \<Rightarrow> (int \<times> string) option" where
  "parse_number s =
     (case s of
        [] \<Rightarrow> None
      | c # r \<Rightarrow>
          if c = CHR ''-'' then map_option (\<lambda>(n, r'). (- int n, r')) (parse_nat r)
          else map_option (\<lambda>(n, r'). (int n, r')) (parse_nat s))"

definition unescape :: "char \<Rightarrow> char option" where
  "unescape e =
     (if e = CHR 0x22 then Some (CHR 0x22)
      else if e = CHR 0x5C then Some (CHR 0x5C)
      else if e = CHR ''/'' then Some (CHR ''/'')
      else if e = CHR ''n'' then Some (CHR 0x0A)
      else if e = CHR ''r'' then Some (CHR 0x0D)
      else if e = CHR ''t'' then Some (CHR 0x09)
      else None)"

text \<open>The characters of a string literal, after its opening quote, up to the closing one.\<close>

fun parse_chars :: "string \<Rightarrow> (string \<times> string) option" where
  "parse_chars [] = None"
| "parse_chars (c # cs) =
     (if c = CHR 0x22 then Some ([], cs)
      else if c = CHR 0x5C then
        (case cs of
           [] \<Rightarrow> None
         | e # cs' \<Rightarrow>
             (case unescape e of
                None \<Rightarrow> None
              | Some d \<Rightarrow>
                  (case parse_chars cs' of
                     None \<Rightarrow> None
                   | Some (s, r) \<Rightarrow> Some (d # s, r))))
      else (case parse_chars cs of
              None \<Rightarrow> None
            | Some (s, r) \<Rightarrow> Some (c # s, r)))"

fun strip_prefix :: "string \<Rightarrow> string \<Rightarrow> string option" where
  "strip_prefix [] s = Some s"
| "strip_prefix (p # ps) [] = None"
| "strip_prefix (p # ps) (c # cs) = (if p = c then strip_prefix ps cs else None)"

text \<open>
  A recursive-descent parser. The first argument bounds the nesting and the number of
  elements still to be read; \<open>JSON_parse\<close> starts it at the length of the text. That is always
  enough, because every recursive call comes after at least one consumed character: a text
  that parses under any bound parses to the same tree under this one
  (\<open>JSON_parse_adequate\<close> below). A property name that occurs twice keeps its first position
  and its last value, as in JavaScript (\<open>AList.update\<close>).
\<close>

fun parse_value :: "nat \<Rightarrow> string \<Rightarrow> (json \<times> string) option"
  and parse_elements :: "nat \<Rightarrow> json list \<Rightarrow> string \<Rightarrow> (json list \<times> string) option"
  and parse_members ::
    "nat \<Rightarrow> (string \<times> json) list \<Rightarrow> string \<Rightarrow> ((string \<times> json) list \<times> string) option"
where
  "parse_value 0 s = None"
| "parse_value (Suc n) s =
     (case skip_ws s of
        [] \<Rightarrow> None
      | c # r \<Rightarrow>
          if c = CHR ''n'' then map_option (Pair JNull) (strip_prefix ''ull'' r)
          else if c = CHR ''t'' then map_option (Pair (JBool True)) (strip_prefix ''rue'' r)
          else if c = CHR ''f'' then map_option (Pair (JBool False)) (strip_prefix ''alse'' r)
          else if c = CHR 0x22 then
            (case parse_chars r of
               None \<Rightarrow> None
             | Some (str, r') \<Rightarrow> Some (JStr str, r'))
          else if c = CHR ''['' then
            (case strip_prefix '']'' (skip_ws r) of
               Some r' \<Rightarrow> Some (JArray [], r')
             | None \<Rightarrow>
                 (case parse_elements n [] r of
                    None \<Rightarrow> None
                  | Some (xs, r') \<Rightarrow> Some (JArray xs, r')))
          else if c = CHR ''{'' then
            (case strip_prefix ''}'' (skip_ws r) of
               Some r' \<Rightarrow> Some (JObject [], r')
             | None \<Rightarrow>
                 (case parse_members n [] r of
                    None \<Rightarrow> None
                  | Some (kvs, r') \<Rightarrow> Some (JObject kvs, r')))
          else
            (case parse_number (c # r) of
               None \<Rightarrow> None
             | Some (i, r') \<Rightarrow> Some (JNum i, r')))"
| "parse_elements 0 acc s = None"
| "parse_elements (Suc n) acc s =
     (case parse_value n s of
        None \<Rightarrow> None
      | Some (x, r) \<Rightarrow>
          (case skip_ws r of
             [] \<Rightarrow> None
           | c # r' \<Rightarrow>
               if c = CHR '','' then parse_elements n (acc @ [x]) r'
               else if c = CHR '']'' then Some (acc @ [x], r')
               else None))"
| "parse_members 0 acc s = None"
| "parse_members (Suc n) acc s =
     (case strip_prefix [CHR 0x22] (skip_ws s) of
        None \<Rightarrow> None
      | Some r \<Rightarrow>
          (case parse_chars r of
             None \<Rightarrow> None
           | Some (k, r1) \<Rightarrow>
               (case strip_prefix '':'' (skip_ws r1) of
                  None \<Rightarrow> None
                | Some r2 \<Rightarrow>
                    (case parse_value n r2 of
                       None \<Rightarrow> None
                     | Some (v, r3) \<Rightarrow>
                         (case skip_ws r3 of
                            [] \<Rightarrow> None
                          | c # r4 \<Rightarrow>
                              if c = CHR '','' then parse_members n (AList.update k v acc) r4
                              else if c = CHR ''}'' then Some (AList.update k v acc, r4)
                              else None)))))"

text \<open>\<open>None\<close> is the \<^verbatim>\<open>SyntaxError\<close> that \<^verbatim>\<open>JSON.parse\<close> throws.\<close>

definition JSON_parse :: "string \<Rightarrow> json option" where
  "JSON_parse s =
     (case parse_value (length s) s of
        None \<Rightarrow> None
      | Some (j, r) \<Rightarrow> if skip_ws r = [] then Some j else None)"

subsection \<open>Predicates on trees\<close>


text \<open>JavaScript's truthiness, on a tree: arrays and objects are truthy.\<close>

fun json_truthy :: "json \<Rightarrow> bool" where
  "json_truthy JNull = False"
| "json_truthy (JBool b) = b"
| "json_truthy (JNum i) = (i \<noteq> 0)"
| "json_truthy (JStr s) = (s \<noteq> [])"
| "json_truthy (JArray xs) = True"
| "json_truthy (JObject kvs) = True"

text \<open>The same for the value of a property that may be absent (\<^verbatim>\<open>undefined\<close>).\<close>

definition json_truthy_opt :: "json option \<Rightarrow> bool" where
  "json_truthy_opt x = (case x of None \<Rightarrow> False | Some j \<Rightarrow> json_truthy j)"



text \<open>Used in the proofs about the parser only: what may follow a number, and how a value starts.\<close>

definition sep_ok :: "string \<Rightarrow> bool" where
  "sep_ok rest = (case rest of [] \<Rightarrow> True | c # _ \<Rightarrow> \<not> is_digit c)"

definition value_start :: "char \<Rightarrow> bool" where
  "value_start c = (c = CHR ''n'' \<or> c = CHR ''t'' \<or> c = CHR ''f'' \<or> c = CHR 0x22 \<or> c = CHR ''[''
     \<or> c = CHR ''{'' \<or> c = CHR ''-'' \<or> is_digit c)"

section \<open>The JavaScript heap\<close>

text \<open>
  Arrays and objects are mutable and held by reference, and \<^verbatim>\<open>loadData\<close> hands out references
  to the arrays of \<^verbatim>\<open>defaultData\<close>; so objects live in a heap, and a value is a primitive or an
  address. The heap is the list of all objects allocated so far, an address is an index into
  it, and allocation appends. A property read that finds nothing yields \<^verbatim>\<open>undefined\<close>, which
  is \<open>None\<close> of \<open>val option\<close>; stored properties are never \<^verbatim>\<open>undefined\<close> here.
\<close>

type_synonym addr = nat

datatype val = VNull | VBool bool | VNum int | VStr string | VRef addr

datatype obj = OArray "val list" | OObject "(string \<times> val) list"

type_synonym heap = "obj list"

datatype error = Error string | TypeError | SyntaxError

text \<open>The object graph that \<^verbatim>\<open>JSON.parse\<close> builds for a tree: fresh objects only.\<close>

fun of_json :: "json \<Rightarrow> heap \<Rightarrow> val \<times> heap"
  and of_jsons :: "json list \<Rightarrow> heap \<Rightarrow> val list \<times> heap"
  and of_members :: "(string \<times> json) list \<Rightarrow> heap \<Rightarrow> (string \<times> val) list \<times> heap"
where
  "of_json JNull h = (VNull, h)"
| "of_json (JBool b) h = (VBool b, h)"
| "of_json (JNum i) h = (VNum i, h)"
| "of_json (JStr s) h = (VStr s, h)"
| "of_json (JArray xs) h = (case of_jsons xs h of (vs, h') \<Rightarrow> (VRef (length h'), h' @ [OArray vs]))"
| "of_json (JObject kvs) h =
     (case of_members kvs h of (fs, h') \<Rightarrow> (VRef (length h'), h' @ [OObject fs]))"
| "of_jsons [] h = ([], h)"
| "of_jsons (x # xs) h =
     (case of_json x h of (v, h') \<Rightarrow> (case of_jsons xs h' of (vs, h'') \<Rightarrow> (v # vs, h'')))"
| "of_members [] h = ([], h)"
| "of_members ((k, x) # kvs) h =
     (case of_json x h of (v, h') \<Rightarrow> (case of_members kvs h' of (fs, h'') \<Rightarrow> ((k, v) # fs, h'')))"

text \<open>
  The tree that a value denotes, following at most \<open>n\<close> references in a row. \<open>None\<close> when a
  chain of references is longer than that (or an address is not allocated).
\<close>

primrec to_json :: "nat \<Rightarrow> heap \<Rightarrow> val \<Rightarrow> json option" where
  "to_json 0 h v =
     (case v of
        VNull \<Rightarrow> Some JNull
      | VBool b \<Rightarrow> Some (JBool b)
      | VNum i \<Rightarrow> Some (JNum i)
      | VStr s \<Rightarrow> Some (JStr s)
      | VRef a \<Rightarrow> None)"
| "to_json (Suc n) h v =
     (case v of
        VNull \<Rightarrow> Some JNull
      | VBool b \<Rightarrow> Some (JBool b)
      | VNum i \<Rightarrow> Some (JNum i)
      | VStr s \<Rightarrow> Some (JStr s)
      | VRef a \<Rightarrow>
          if a < length h then
            (case h ! a of
               OArray vs \<Rightarrow> map_option JArray (those (map (to_json n h) vs))
             | OObject fs \<Rightarrow>
                 map_option JObject
                   (those (map (\<lambda>(k, v). map_option (Pair k) (to_json n h v)) fs)))
          else None)"

text \<open>
  A chain of references through distinct objects is no longer than the heap, so the length
  of the heap is always enough as the bound: a value that denotes a tree under any bound
  denotes it under this one (\<open>JSON_value_adequate\<close> below), and \<open>None\<close> means a cyclic
  structure. Two values are deep-equal when they denote the same tree.
\<close>

definition JSON_value :: "heap \<Rightarrow> val \<Rightarrow> json option" where
  "JSON_value h v = to_json (length h) h v"

text \<open>
  Used in the proof of \<open>JSON_value_adequate\<close> only: the addresses that denote a tree of size
  at most \<open>k\<close>.
\<close>

definition denoting :: "heap \<Rightarrow> nat \<Rightarrow> addr set" where
  "denoting h k = {a. a < length h \<and> (\<exists>m t. to_json m h (VRef a) = Some t \<and> size t \<le> k)}"

text \<open>\<^verbatim>\<open>JSON.stringify(v)\<close>: a \<^verbatim>\<open>TypeError\<close> on a cyclic structure.\<close>

definition JSON_stringify :: "heap \<Rightarrow> val \<Rightarrow> error + string" where
  "JSON_stringify h v =
     (case JSON_value h v of
        None \<Rightarrow> Inl TypeError
      | Some j \<Rightarrow> Inr (stringify_json j))"

text \<open>Truthiness of a value, as \<^verbatim>\<open>if (x)\<close>, \<^verbatim>\<open>!x\<close> and \<^verbatim>\<open>x || y\<close> test it.\<close>

fun truthy :: "val \<Rightarrow> bool" where
  "truthy VNull = False"
| "truthy (VBool b) = b"
| "truthy (VNum i) = (i \<noteq> 0)"
| "truthy (VStr s) = (s \<noteq> [])"
| "truthy (VRef a) = True"

definition truthy_opt :: "val option \<Rightarrow> bool" where
  "truthy_opt x = (case x of None \<Rightarrow> False | Some v \<Rightarrow> truthy v)"

text \<open>
  The property read \<^verbatim>\<open>v.k\<close> for the names that the module reads (\<^verbatim>\<open>data\<close>, \<^verbatim>\<open>products\<close>,
  \<^verbatim>\<open>customers\<close>, \<^verbatim>\<open>sellers\<close>, \<^verbatim>\<open>customerTransactions\<close>, \<^verbatim>\<open>supplierTransactions\<close>): none of
  them is inherited from a prototype, so an object yields its own property, an array or a
  primitive yields \<^verbatim>\<open>undefined\<close>, and \<^verbatim>\<open>null\<close> throws a \<^verbatim>\<open>TypeError\<close>.
\<close>

fun get_prop :: "heap \<Rightarrow> val \<Rightarrow> string \<Rightarrow> error + val option" where
  "get_prop h VNull k = Inl TypeError"
| "get_prop h (VRef a) k =
     (if a < length h then
        (case h ! a of OObject fs \<Rightarrow> Inr (map_of fs k) | OArray vs \<Rightarrow> Inr None)
      else Inr None)"
| "get_prop h v k = Inr None"

text \<open>The own enumerable properties that the spread \<^verbatim>\<open>{ ...o }\<close> copies.\<close>

definition own_props :: "obj \<Rightarrow> (string \<times> val) list" where
  "own_props ob =
     (case ob of
        OObject fs \<Rightarrow> fs
      | OArray vs \<Rightarrow> zip (map show_nat [0..<length vs]) vs)"

section \<open>DataManager\<close>

text \<open>
  \<^verbatim>\<open>window.electronAPI\<close> is supplied by the host process and is not part of the module. It is
  a parameter of the model: four functions on a host state of any type \<open>'h\<close>, each of which
  may reject (\<open>Inl\<close>). What \<^verbatim>\<open>loadData\<close> resolves to arrives as a fresh object graph, given here
  as its tree; the save functions see the argument as it is in the heap.
\<close>

record 'h electronAPI =
  api_loadData :: "'h \<Rightarrow> (error + json) \<times> 'h"
  api_saveData :: "heap \<Rightarrow> val \<Rightarrow> 'h \<Rightarrow> (error + unit) \<times> 'h"
  api_saveTransactions :: "string \<Rightarrow> heap \<Rightarrow> val \<Rightarrow> 'h \<Rightarrow> (error + unit) \<times> 'h"
  api_clearAllData :: "'h \<Rightarrow> (error + unit) \<times> 'h"

text \<open>
  Everything the module reads or writes. \<open>electronAPI\<close> is \<open>None\<close> in a browser, where
  \<^verbatim>\<open>typeof window !== 'undefined' && window.electronAPI\<close> is falsy. \<open>localStorage\<close> maps a key
  to its string (\<^verbatim>\<open>getItem\<close> yields \<^verbatim>\<open>null\<close>, here \<open>None\<close>, for a missing key); \<^verbatim>\<open>setItem\<close>
  is taken to succeed. \<open>defaultData\<close> is the address of the object literal that the property
  \<^verbatim>\<open>DataManager.defaultData\<close> refers to. Console output is not modelled.
\<close>

record 'h state =
  electronAPI :: "'h electronAPI option"
  host :: 'h
  localStorage :: "string \<rightharpoonup> string"
  heap :: heap
  defaultData :: addr

text \<open>The array literal \<^verbatim>\<open>[]\<close>.\<close>

definition new_array :: "'h state \<Rightarrow> val \<times> 'h state" where
  "new_array s = (VRef (length (heap s)), s\<lparr>heap := heap s @ [OArray []]\<rparr>)"

text \<open>
  \<^verbatim>\<open>{ ...this.defaultData }\<close>: a new object with the properties of \<^verbatim>\<open>defaultData\<close>. The property
  values are copied as they are, so the new object refers to the same five arrays.
\<close>

definition copy_defaultData :: "'h state \<Rightarrow> val \<times> 'h state" where
  "copy_defaultData s =
     (let h = heap s;
          fs = (if defaultData s < length h then own_props (h ! defaultData s) else [])
      in (VRef (length h), s\<lparr>heap := h @ [OObject fs]\<rparr>))"

text \<open>\<^verbatim>\<open>JSON.parse(text)\<close> in a state: a \<^verbatim>\<open>SyntaxError\<close>, or the new object graph.\<close>

definition parse_into :: "string \<Rightarrow> 'h state \<Rightarrow> (error + val) \<times> 'h state" where
  "parse_into text s =
     (case JSON_parse text of
        None \<Rightarrow> (Inl SyntaxError, s)
      | Some j \<Rightarrow> (case of_json j (heap s) of (v, h') \<Rightarrow> (Inr v, s\<lparr>heap := h'\<rparr>)))"

subsection \<open>\<^verbatim>\<open>initialize\<close> and \<^verbatim>\<open>migrateFromLocalStorage\<close>\<close>

text \<open>\<^verbatim>\<open>if (existing) { localStorage.setItem(key, existing); }\<close>\<close>

definition setItem_if :: "string option \<Rightarrow> string \<Rightarrow> (string \<rightharpoonup> string) \<Rightarrow> (string \<rightharpoonup> string)" where
  "setItem_if existing key ls =
     (case existing of
        None \<Rightarrow> ls
      | Some v \<Rightarrow> if v \<noteq> [] then ls(key \<mapsto> v) else ls)"

definition migrateFromLocalStorage :: "'h state \<Rightarrow> 'h state" where
  "migrateFromLocalStorage s =
     (let existingData = localStorage s ''perfectWoodData'';
          existingCustomerTransactions = localStorage s ''customerTransactions'';
          existingSupplierTransactions = localStorage s ''supplierTransactions'';
          s1 = s\<lparr>localStorage :=
                 setItem_if existingData ''data/perfectWoodData.json'' (localStorage s)\<rparr>;
          s2 = s1\<lparr>localStorage :=
                 setItem_if existingCustomerTransactions ''data/customerTransactions.json''
                   (localStorage s1)\<rparr>
      in s2\<lparr>localStorage :=
              setItem_if existingSupplierTransactions ''data/supplierTransactions.json''
                (localStorage s2)\<rparr>)"

text \<open>Returns early under Electron; nothing in the body can throw, so the catch is never taken.\<close>

definition initialize :: "'h state \<Rightarrow> 'h state" where
  "initialize s =
     (case electronAPI s of
        Some api \<Rightarrow> s
      | None \<Rightarrow> migrateFromLocalStorage s)"

subsection \<open>\<^verbatim>\<open>loadData\<close> and \<^verbatim>\<open>saveData\<close>\<close>

text \<open>\<^verbatim>\<open>await window.electronAPI.loadData()\<close>: the rejection, or the resolved value in the heap.\<close>

definition host_loadData :: "'h electronAPI \<Rightarrow> 'h state \<Rightarrow> (error + val) \<times> 'h state" where
  "host_loadData api s =
     (case api_loadData api (host s) of
        (Inl e, hs) \<Rightarrow> (Inl e, s\<lparr>host := hs\<rparr>)
      | (Inr j, hs) \<Rightarrow>
          (case of_json j (heap s) of (v, h') \<Rightarrow> (Inr v, s\<lparr>host := hs, heap := h'\<rparr>)))"

text \<open>
  The body of the \<^verbatim>\<open>try\<close> block of \<^verbatim>\<open>loadData\<close>. Under Electron it returns
  \<^verbatim>\<open>result.data || this.defaultData\<close>, that is \<^verbatim>\<open>defaultData\<close> itself and no copy.
\<close>

definition loadData_try :: "'h state \<Rightarrow> (error + val) \<times> 'h state" where
  "loadData_try s =
     (case electronAPI s of
        Some api \<Rightarrow>
          (case host_loadData api s of
             (Inl e, s') \<Rightarrow> (Inl e, s')
           | (Inr result, s') \<Rightarrow>
               (case get_prop (heap s') result ''data'' of
                  Inl e \<Rightarrow> (Inl e, s')
                | Inr None \<Rightarrow> (Inr (VRef (defaultData s')), s')
                | Inr (Some d) \<Rightarrow>
                    if truthy d then (Inr d, s') else (Inr (VRef (defaultData s')), s')))
      | None \<Rightarrow>
          (case localStorage s ''data/perfectWoodData.json'' of
             None \<Rightarrow> apfst Inr (copy_defaultData s)
           | Some data \<Rightarrow>
               if data \<noteq> [] then parse_into data s
               else apfst Inr (copy_defaultData s)))"

text \<open>With the \<^verbatim>\<open>catch\<close>: any error becomes \<^verbatim>\<open>{ ...this.defaultData }\<close>.\<close>

definition loadData :: "'h state \<Rightarrow> val \<times> 'h state" where
  "loadData s =
     (case loadData_try s of
        (Inr v, s') \<Rightarrow> (v, s')
      | (Inl e, s') \<Rightarrow> copy_defaultData s')"

definition saveData :: "val \<Rightarrow> 'h state \<Rightarrow> bool \<times> 'h state" where
  "saveData data s =
     (case electronAPI s of
        Some api \<Rightarrow>
          (case api_saveData api (heap s) data (host s) of
             (Inl e, hs) \<Rightarrow> (False, s\<lparr>host := hs\<rparr>)
           | (Inr u, hs) \<Rightarrow> (True, s\<lparr>host := hs\<rparr>))
      | None \<Rightarrow>
          (case JSON_stringify (heap s) data of
             Inl e \<Rightarrow> (False, s)
           | Inr text \<Rightarrow>
               (True, s\<lparr>localStorage := (localStorage s)(''data/perfectWoodData.json'' \<mapsto> text)\<rparr>)))"

subsection \<open>The transaction logs\<close>

text \<open>
  \<^verbatim>\<open>loadCustomerTransactions\<close> and \<^verbatim>\<open>loadSupplierTransactions\<close> are the same code up to the
  property read from the host's result and the key; likewise the two save functions, up to
  the kind passed to the host and the key. \<open>loadTransactions_try\<close> is the \<^verbatim>\<open>try\<close> block.
\<close>

definition loadTransactions_try :: "string \<Rightarrow> string \<Rightarrow> 'h state \<Rightarrow> (error + val) \<times> 'h state" where
  "loadTransactions_try field key s =
     (case electronAPI s of
        Some api \<Rightarrow>
          (case host_loadData api s of
             (Inl e, s') \<Rightarrow> (Inl e, s')
           | (Inr result, s') \<Rightarrow>
               (case get_prop (heap s') result field of
                  Inl e \<Rightarrow> (Inl e, s')
                | Inr None \<Rightarrow> apfst Inr (new_array s')
                | Inr (Some t) \<Rightarrow>
                    if truthy t then (Inr t, s') else apfst Inr (new_array s')))
      | None \<Rightarrow>
          (case localStorage s key of
             None \<Rightarrow> apfst Inr (new_array s)
           | Some transactions \<Rightarrow>
               if transactions \<noteq> [] then parse_into transactions s
               else apfst Inr (new_array s)))"

definition loadTransactions :: "string \<Rightarrow> string \<Rightarrow> 'h state \<Rightarrow> val \<times> 'h state" where
  "loadTransactions field key s =
     (case loadTransactions_try field key s of
        (Inr v, s') \<Rightarrow> (v, s')
      | (Inl e, s') \<Rightarrow> new_array s')"



definition saveTransactions :: "string \<Rightarrow> string \<Rightarrow> val \<Rightarrow> 'h state \<Rightarrow> bool \<times> 'h state" where
  "saveTransactions kind key transactions s =
     (case electronAPI s of
        Some api \<Rightarrow>
          (case api_saveTransactions api kind (heap s) transactions (host s) of
             (Inl e, hs) \<Rightarrow> (False, s\<lparr>host := hs\<rparr>)
           | (Inr u, hs) \<Rightarrow> (True, s\<lparr>host := hs\<rparr>))
      | None \<Rightarrow>
          (case JSON_stringify (heap s) transactions of
             Inl e \<Rightarrow> (False, s)
           | Inr text \<Rightarrow> (True, s\<lparr>localStorage := (localStorage s)(key \<mapsto> text)\<rparr>)))"

definition saveCustomerTransactions :: "val \<Rightarrow> 'h state \<Rightarrow> bool \<times> 'h state" where
  "saveCustomerTransactions = saveTransactions ''customer'' ''data/customerTransactions.json''"

definition saveSupplierTransactions :: "val \<Rightarrow> 'h state \<Rightarrow> bool \<times> 'h state" where
  "saveSupplierTransactions = saveTransactions ''supplier'' ''data/supplierTransactions.json''"

subsection \<open>\<^verbatim>\<open>importData\<close>\<close>

text \<open>
  \<^verbatim>\<open>if (!importData.products || !importData.customers || !importData.sellers) throw new
  Error('Invalid data structure')\<close>, read left to right.
\<close>

definition validate_import :: "heap \<Rightarrow> val \<Rightarrow> error + unit" where
  "validate_import h importData =
     (case get_prop h importData ''products'' of
        Inl e \<Rightarrow> Inl e
      | Inr products \<Rightarrow>
          if \<not> truthy_opt products then Inl (Error ''Invalid data structure'')
          else
            (case get_prop h importData ''customers'' of
               Inl e \<Rightarrow> Inl e
             | Inr customers \<Rightarrow>
                 if \<not> truthy_opt customers then Inl (Error ''Invalid data structure'')
                 else
                   (case get_prop h importData ''sellers'' of
                      Inl e \<Rightarrow> Inl e
                    | Inr sellers \<Rightarrow>
                        if \<not> truthy_opt sellers then Inl (Error ''Invalid data structure'')
                        else Inr ())))"

text \<open>\<^verbatim>\<open>x || []\<close>: the value itself when it is truthy, a new empty array otherwise.\<close>

definition or_empty_array :: "val option \<Rightarrow> heap \<Rightarrow> val \<times> heap" where
  "or_empty_array x h =
     (case x of
        None \<Rightarrow> (VRef (length h), h @ [OArray []])
      | Some v \<Rightarrow> if truthy v then (v, h) else (VRef (length h), h @ [OArray []]))"

text \<open>
  The argument of the call to \<^verbatim>\<open>saveData\<close>: the object literal
  \<^verbatim>\<open>{ products: importData.products || [], customers: importData.customers || [],
  sellers: importData.sellers || [] }\<close>.
\<close>

definition import_dataset :: "heap \<Rightarrow> val \<Rightarrow> error + val \<times> heap" where
  "import_dataset h importData =
     (case get_prop h importData ''products'' of
        Inl e \<Rightarrow> Inl e
      | Inr p \<Rightarrow>
          (case or_empty_array p h of
             (products, h1) \<Rightarrow>
               (case get_prop h1 importData ''customers'' of
                  Inl e \<Rightarrow> Inl e
                | Inr c \<Rightarrow>
                    (case or_empty_array c h1 of
                       (customers, h2) \<Rightarrow>
                         (case get_prop h2 importData ''sellers'' of
                            Inl e \<Rightarrow> Inl e
                          | Inr sl \<Rightarrow>
                              (case or_empty_array sl h2 of
                                 (sellers, h3) \<Rightarrow>
                                   Inr (VRef (length h3),
                                        h3 @ [OObject [(''products'', products),
                                                       (''customers'', customers),
                                                       (''sellers'', sellers)]])))))))"

text \<open>
  \<^verbatim>\<open>if (importData.field) { await this.save(importData.field); }\<close>; the result of the save
  is not looked at.
\<close>

definition import_transactions ::
  "string \<Rightarrow> (val \<Rightarrow> 'h state \<Rightarrow> bool \<times> 'h state) \<Rightarrow> val \<Rightarrow> 'h state \<Rightarrow> (error + unit) \<times> 'h state"
where
  "import_transactions field save importData s =
     (case get_prop (heap s) importData field of
        Inl e \<Rightarrow> (Inl e, s)
      | Inr None \<Rightarrow> (Inr (), s)
      | Inr (Some t) \<Rightarrow> if truthy t then (Inr (), snd (save t s)) else (Inr (), s))"

text \<open>
  The handler \<^verbatim>\<open>reader.onload\<close>, on the text of the file: \<open>Inl e\<close> is \<^verbatim>\<open>reject(e)\<close>, \<open>Inr True\<close>
  is \<^verbatim>\<open>resolve(true)\<close>. The result of \<^verbatim>\<open>saveData\<close> is not looked at either.
\<close>

definition importData_onload :: "string \<Rightarrow> 'h state \<Rightarrow> (error + bool) \<times> 'h state" where
  "importData_onload text s =
     (case parse_into text s of
        (Inl e, s1) \<Rightarrow> (Inl e, s1)
      | (Inr importData, s1) \<Rightarrow>
          (case validate_import (heap s1) importData of
             Inl e \<Rightarrow> (Inl e, s1)
           | Inr u \<Rightarrow>
               (case import_dataset (heap s1) importData of
                  Inl e \<Rightarrow> (Inl e, s1)
                | Inr (dataset, h2) \<Rightarrow>
                    (case import_transactions ''customerTransactions'' saveCustomerTransactions
                            importData (snd (saveData dataset (s1\<lparr>heap := h2\<rparr>))) of
                       (Inl e, s3) \<Rightarrow> (Inl e, s3)
                     | (Inr u, s3) \<Rightarrow>
                         (case import_transactions ''supplierTransactions''
                                 saveSupplierTransactions importData s3 of
                            (Inl e, s4) \<Rightarrow> (Inl e, s4)
                          | (Inr u, s4) \<Rightarrow> (Inr True, s4))))))"

text \<open>The file is its text, or \<open>None\<close> when it cannot be read (\<^verbatim>\<open>reader.onerror\<close>).\<close>

definition importData :: "string option \<Rightarrow> 'h state \<Rightarrow> (error + bool) \<times> 'h state" where
  "importData file s =
     (case file of
        None \<Rightarrow> (Inl (Error ''Error reading file''), s)
      | Some text \<Rightarrow> importData_onload text s)"

subsection \<open>\<^verbatim>\<open>clearAllData\<close>\<close>


text \<open>
  \<^verbatim>\<open>exportData\<close> is not modelled: it reads the clock and drives the DOM, and no property below
  is about it.
\<close>

subsection \<open>Callers, results and example states\<close>

text \<open>What a caller does with a loaded array: \<^verbatim>\<open>array.push(v)\<close> on the array at an address.\<close>

definition array_push :: "addr \<Rightarrow> val \<Rightarrow> 'h state \<Rightarrow> 'h state" where
  "array_push a v s =
     (if a < length (heap s) then
        (case heap s ! a of
           OArray vs \<Rightarrow> s\<lparr>heap := (heap s)[a := OArray (vs @ [v])]\<rparr>
         | OObject fs \<Rightarrow> s)
      else s)"

text \<open>The tree denoted by a returned value, in the state that the call leaves.\<close>

definition result_json :: "val \<times> 'h state \<Rightarrow> json option" where
  "result_json r = JSON_value (heap (snd r)) (fst r)"




text \<open>The three required fields of an import are present and truthy.\<close>

definition import_valid :: "(string \<times> json) list \<Rightarrow> bool" where
  "import_valid kvs =
     (json_truthy_opt (map_of kvs ''products'') \<and> json_truthy_opt (map_of kvs ''customers'')
      \<and> json_truthy_opt (map_of kvs ''sellers''))"

text \<open>The Default Dataset, as the literal \<^verbatim>\<open>defaultData\<close> is written.\<close>

definition default_fields :: "(string \<times> json) list" where
  "default_fields = [(''products'', JArray []), (''customers'', JArray []),
     (''sellers'', JArray []), (''customerTransactions'', JArray []),
     (''supplierTransactions'', JArray [])]"

text \<open>
  The state when the script has loaded in a browser with nothing stored: the heap holds the
  five arrays of \<^verbatim>\<open>defaultData\<close> at addresses 0 to 4 and \<^verbatim>\<open>defaultData\<close> itself at 5.
\<close>

definition initial_state :: "unit state" where
  "initial_state =
     \<lparr>electronAPI = None, host = (), localStorage = Map.empty,
      heap = [OArray [], OArray [], OArray [], OArray [], OArray [],
              OObject [(''products'', VRef 0), (''customers'', VRef 1), (''sellers'', VRef 2),
                       (''customerTransactions'', VRef 3), (''supplierTransactions'', VRef 4)]],
      defaultData = 5\<rparr>"

text \<open>
  A Dataset with one product, \<^verbatim>\<open>{"products":[{"id":1}],"customers":[],"sellers":[]}\<close>, and
  a state in which a caller has built it (at address 10; its \<^verbatim>\<open>products\<close> array at 7) on top
  of the initial heap, with all three documents and the legacy document already stored.
\<close>

definition example_json :: json where
  "example_json = JObject [(''products'', JArray [JObject [(''id'', JNum 1)]]),
     (''customers'', JArray []), (''sellers'', JArray [])]"

definition example_state :: "unit state" where
  "example_state =
     \<lparr>electronAPI = None, host = (),
      localStorage = [''data/perfectWoodData.json'' \<mapsto> ''{\"products\":[],\"customers\":[],\"sellers\":[]}'',
                      ''data/customerTransactions.json'' \<mapsto> ''[{\"id\":7}]'',
                      ''data/supplierTransactions.json'' \<mapsto> ''[{\"id\":8}]'',
                      ''perfectWoodData'' \<mapsto> ''{\"products\":[{\"id\":1}],\"customers\":[],\"sellers\":[]}''],
      heap = [OArray [], OArray [], OArray [], OArray [], OArray [],
              OObject [(''products'', VRef 0), (''customers'', VRef 1), (''sellers'', VRef 2),
                       (''customerTransactions'', VRef 3), (''supplierTransactions'', VRef 4)],
              OObject [(''id'', VNum 1)], OArray [VRef 6], OArray [], OArray [],
              OObject [(''products'', VRef 7), (''customers'', VRef 8), (''sellers'', VRef 9)]],
      defaultData = 5\<rparr>"



text \<open>
  Three import files: the example Dataset, the same without \<^verbatim>\<open>sellers\<close>, and one whose
  \<^verbatim>\<open>products\<close> is the number 0.
\<close>

definition example_text :: string where
  "example_text = ''{\"products\":[{\"id\":1}],\"customers\":[],\"sellers\":[]}''"

definition missing_sellers_text :: string where
  "missing_sellers_text = ''{\"products\":[{\"id\":1}],\"customers\":[]}''"


text \<open>A browser that holds the example Dataset under the legacy key only.\<close>

definition legacy_state :: "unit state" where
  "legacy_state = initial_state\<lparr>localStorage := [''perfectWoodData'' \<mapsto> example_text]\<rparr>"

text \<open>
  The initial state after \<^verbatim>\<open>const d = await DataManager.loadData(); d.products.push(1);\<close>:
  the first load returns the object at address 6, whose \<^verbatim>\<open>products\<close> is the array at
  address 0.
\<close>

definition pushed_state :: "unit state" where
  "pushed_state = array_push 0 (VNum 1) (snd (loadData initial_state))"

section \<open>Properties of JSON text\<close>

text \<open>
  The text that \<open>stringify_json\<close> writes for a tree parses back to the tree
  (\<open>JSON_parse_stringify\<close>), it is never empty, and every tree that the parser returns holds
  each property name once (\<open>JSON_parse_wf\<close>, further down). First numbers and strings.
\<close>

lemma of_char_digit_char: "d < 10 \<Longrightarrow> (of_char (digit_char d) :: nat) = 48 + d"
  by (simp add: digit_char_def)

lemma is_digit_digit_char: "d < 10 \<Longrightarrow> is_digit (digit_char d)"
  by (simp add: is_digit_def of_char_digit_char)


lemma show_nat_not_Nil: "show_nat n \<noteq> []"
  by (subst show_nat.simps) simp

lemma show_nat_digits: "c \<in> set (show_nat n) \<Longrightarrow> is_digit c"
proof (induction n arbitrary: c rule: show_nat.induct)
  case (1 n)
  show ?case
  proof (cases "n < 10")
    case True
    with "1.prems" show ?thesis
      by (subst (asm) show_nat.simps) (simp add: is_digit_digit_char)
  next
    case False
    with "1.prems" "1.IH" show ?thesis
      by (subst (asm) show_nat.simps) (auto simp: is_digit_digit_char)
  qed
qed










lemma show_nat_hd_digit: "\<exists>c cs. show_nat n = c # cs \<and> is_digit c"
proof (cases "show_nat n")
  case Nil
  then show ?thesis by (simp add: show_nat_not_Nil)
next
  case (Cons c cs)
  then have "c \<in> set (show_nat n)" by simp
  then have "is_digit c" by (rule show_nat_digits)
  with Cons show ?thesis by simp
qed



text \<open>
  Values: the text of a value starts with a character that is neither white space nor a
  closing bracket, so the parser dispatches on it; then arrays and objects, element by
  element, with enough of the bound left at each step.
\<close>

lemma value_start_not_ws: "value_start c \<Longrightarrow> \<not> is_ws c"
  by (auto simp: value_start_def is_ws_def is_digit_def)


lemma show_int_start: "\<exists>c cs. show_int i = c # cs \<and> (c = CHR ''-'' \<or> is_digit c)"
  using show_nat_hd_digit [of "nat i"] by (auto simp: show_int_def)

lemma stringify_start: "\<exists>c cs. stringify_json j = c # cs \<and> value_start c"
proof (cases j)
  case (JNum i)
  then show ?thesis using show_int_start [of i] by (auto simp: value_start_def)
qed (auto simp: value_start_def quote_def)

lemma skip_ws_Cons: "\<not> is_ws c \<Longrightarrow> skip_ws (c # s) = c # s"
  by (simp add: skip_ws_def)

lemma skip_ws_stringify: "skip_ws (stringify_json j @ rest) = stringify_json j @ rest"
  using stringify_start [of j] by (auto simp: skip_ws_Cons value_start_not_ws)

lemma sep_ok_simps [simp]:
  "sep_ok []" "sep_ok (CHR '','' # s)" "sep_ok (CHR '']'' # s)" "sep_ok (CHR ''}'' # s)"
  by (simp_all add: sep_ok_def is_digit_def)

lemma is_ws_simps [simp]:
  "\<not> is_ws (CHR '','')" "\<not> is_ws (CHR '']'')" "\<not> is_ws (CHR ''}'')" "\<not> is_ws (CHR '':'')"
  "\<not> is_ws (CHR 0x22)" "\<not> is_ws (CHR ''['')" "\<not> is_ws (CHR ''{'')"
  "\<not> is_ws (CHR ''n'')" "\<not> is_ws (CHR ''t'')" "\<not> is_ws (CHR ''f'')"
  by (simp_all add: is_ws_def)




lemma quote_Cons: "quote k = CHR 0x22 # tl (quote k)"
  by (simp add: quote_def)






subsection \<open>The bound of the parser is enough\<close>

text \<open>
  A larger bound never changes a result; a successful run consumes at least one character
  and succeeds already with the number of characters it consumes as its bound. So the length
  of the text is enough for every text.
\<close>

lemma parse_fuel_mono_all:
  "n \<le> m \<Longrightarrow>
     (parse_value n s = Some x \<longrightarrow> parse_value m s = Some x)
   \<and> (parse_elements n acc s = Some y \<longrightarrow> parse_elements m acc s = Some y)
   \<and> (parse_members n macc s = Some z \<longrightarrow> parse_members m macc s = Some z)"
proof (induction n arbitrary: m s x acc y macc z)
  case 0
  then show ?case by simp
next
  case (Suc n)
  then obtain m' where m: "m = Suc m'" "n \<le> m'" by (cases m) auto
  have ihv: "parse_value n s' = Some x' \<Longrightarrow> parse_value m' s' = Some x'" for s' x'
    using Suc.IH [OF m(2)] by blast
  have ihe: "parse_elements n acc' s' = Some y' \<Longrightarrow> parse_elements m' acc' s' = Some y'"
    for acc' s' y'
    using Suc.IH [OF m(2)] by blast
  have ihm: "parse_members n macc' s' = Some z' \<Longrightarrow> parse_members m' macc' s' = Some z'"
    for macc' s' z'
    using Suc.IH [OF m(2)] by blast
  have 1: "parse_value (Suc m') s = Some x" if "parse_value (Suc n) s = Some x"
    using that
    by (auto split: list.splits if_splits option.splits prod.splits dest: ihe ihm)
  have 2: "parse_elements (Suc m') acc s = Some y" if "parse_elements (Suc n) acc s = Some y"
  proof -
    from that obtain v r c r' where
      pv: "parse_value n s = Some (v, r)" and sk: "skip_ws r = c # r'"
      and rest: "(c = CHR '','' \<and> parse_elements n (acc @ [v]) r' = Some y)
               \<or> (c \<noteq> CHR '','' \<and> c = CHR '']'' \<and> y = (acc @ [v], r'))"
      by (auto split: option.splits list.splits if_splits)
    from rest show ?thesis
    proof
      assume "c = CHR '','' \<and> parse_elements n (acc @ [v]) r' = Some y"
      then show ?thesis using ihv [OF pv] sk ihe [of "acc @ [v]" r' y] by simp
    next
      assume "c \<noteq> CHR '','' \<and> c = CHR '']'' \<and> y = (acc @ [v], r')"
      then show ?thesis using ihv [OF pv] sk by simp
    qed
  qed
  have 3: "parse_members (Suc m') macc s = Some z" if "parse_members (Suc n) macc s = Some z"
  proof -
    from that obtain q k r1 r2 v r3 c r4 where
      sp: "strip_prefix [CHR 0x22] (skip_ws s) = Some q" and pc: "parse_chars q = Some (k, r1)"
      and sp2: "strip_prefix '':'' (skip_ws r1) = Some r2"
      and pv: "parse_value n r2 = Some (v, r3)" and sk: "skip_ws r3 = c # r4"
      and rest: "(c = CHR '','' \<and> parse_members n (AList.update k v macc) r4 = Some z)
               \<or> (c \<noteq> CHR '','' \<and> c = CHR ''}'' \<and> z = (AList.update k v macc, r4))"
      by (auto split: option.splits list.splits if_splits)
    from rest show ?thesis
    proof
      assume "c = CHR '','' \<and> parse_members n (AList.update k v macc) r4 = Some z"
      then show ?thesis
        using sp pc sp2 ihv [OF pv] sk ihm [of "AList.update k v macc" r4 z] by simp
    next
      assume "c \<noteq> CHR '','' \<and> c = CHR ''}'' \<and> z = (AList.update k v macc, r4)"
      then show ?thesis using sp pc sp2 ihv [OF pv] sk by simp
    qed
  qed
  from 1 2 3 show ?case unfolding m(1) by blast
qed

lemma parse_value_fuel_mono: "parse_value n s = Some x \<Longrightarrow> n \<le> m \<Longrightarrow> parse_value m s = Some x"
  using parse_fuel_mono_all by blast

lemma parse_elements_fuel_mono:
  "parse_elements n acc s = Some y \<Longrightarrow> n \<le> m \<Longrightarrow> parse_elements m acc s = Some y"
  using parse_fuel_mono_all by blast

lemma parse_members_fuel_mono:
  "parse_members n macc s = Some z \<Longrightarrow> n \<le> m \<Longrightarrow> parse_members m macc s = Some z"
  using parse_fuel_mono_all by blast

lemma skip_ws_length: "length (skip_ws s) \<le> length s"
  by (simp add: skip_ws_def length_dropWhile_le)

lemma skip_ws_Cons_length: "skip_ws s = c # r \<Longrightarrow> length r < length s"
  using skip_ws_length [of s] by simp

lemma strip_prefix_length: "strip_prefix p s = Some r \<Longrightarrow> length s = length p + length r"
  by (induction p s rule: strip_prefix.induct) (auto split: if_splits)

lemma parse_chars_length: "parse_chars s = Some (str, r) \<Longrightarrow> length r < length s"
  by (induction s arbitrary: str r rule: parse_chars.induct)
     (fastforce split: if_splits list.splits option.splits)+

lemma parse_nat_length: "parse_nat s = Some (k, r) \<Longrightarrow> length r < length s"
proof -
  assume "parse_nat s = Some (k, r)"
  then have ne: "takeWhile is_digit s \<noteq> []" and r: "r = dropWhile is_digit s"
    by (auto simp: parse_nat_def Let_def split: if_splits)
  have "length (takeWhile is_digit s) + length (dropWhile is_digit s) = length s"
    by (metis length_append takeWhile_dropWhile_id)
  with ne r show ?thesis by (cases "takeWhile is_digit s") auto
qed

lemma parse_number_length: "parse_number s = Some (i, r) \<Longrightarrow> length r < length s"
  by (auto simp: parse_number_def split: list.splits if_splits dest!: parse_nat_length)

lemma parse_value_flat_length:
  assumes "parse_value (Suc 0) s = Some (j, r)"
  shows "length r < length s"
proof -
  from assms obtain c q where sk: "skip_ws s = c # q" by (auto split: list.splits)
  have lq: "length q < length s" using sk by (rule skip_ws_Cons_length)
  have "length r \<le> length q"
    using assms sk skip_ws_length [of q]
    by (auto split: if_splits option.splits
        dest!: strip_prefix_length parse_chars_length parse_number_length)
  with lq show ?thesis by simp
qed

lemma parse_consumes_all:
  "(parse_value n s = Some (j, r) \<longrightarrow>
      length r < length s \<and> parse_value (length s - length r) s = Some (j, r))
   \<and> (parse_elements n acc s = Some (xs, r) \<longrightarrow>
      length r < length s \<and> parse_elements (length s - length r) acc s = Some (xs, r))
   \<and> (parse_members n macc s = Some (kvs, r) \<longrightarrow>
      length r < length s \<and> parse_members (length s - length r) macc s = Some (kvs, r))"
proof (induction n arbitrary: s j r acc xs macc kvs)
  case 0
  then show ?case by simp
next
  case (Suc n)
  have ihv: "length r' < length s' \<and> parse_value (length s' - length r') s' = Some (j', r')"
    if "parse_value n s' = Some (j', r')" for s' j' r'
    using Suc.IH that by blast
  have ihe: "length r' < length s'
             \<and> parse_elements (length s' - length r') acc' s' = Some (xs', r')"
    if "parse_elements n acc' s' = Some (xs', r')" for s' acc' xs' r'
    using Suc.IH that by blast
  have ihm: "length r' < length s'
             \<and> parse_members (length s' - length r') macc' s' = Some (kvs', r')"
    if "parse_members n macc' s' = Some (kvs', r')" for s' macc' kvs' r'
    using Suc.IH that by blast
  have 1: "length r < length s \<and> parse_value (length s - length r) s = Some (j, r)"
    if pv: "parse_value (Suc n) s = Some (j, r)"
  proof -
    from pv obtain c q where sk: "skip_ws s = c # q" by (auto split: list.splits)
    have lq: "length q < length s" using sk by (rule skip_ws_Cons_length)
    from pv sk consider
        (flat) "parse_value (Suc 0) s = Some (j, r)"
      | (arr) ys where "c \<noteq> CHR ''n''" "c \<noteq> CHR ''t''" "c \<noteq> CHR ''f''" "c \<noteq> CHR 0x22"
          "c = CHR ''[''" "strip_prefix '']'' (skip_ws q) = None"
          "parse_elements n [] q = Some (ys, r)" "j = JArray ys"
      | (obj) ms where "c \<noteq> CHR ''n''" "c \<noteq> CHR ''t''" "c \<noteq> CHR ''f''" "c \<noteq> CHR 0x22"
          "c \<noteq> CHR ''[''" "c = CHR ''{''" "strip_prefix ''}'' (skip_ws q) = None"
          "parse_members n [] q = Some (ms, r)" "j = JObject ms"
      by (auto split: if_splits option.splits)
    then show ?thesis
    proof cases
      case flat
      have l: "length r < length s" using flat by (rule parse_value_flat_length)
      then have "Suc 0 \<le> length s - length r" by simp
      with flat have "parse_value (length s - length r) s = Some (j, r)"
        by (rule parse_value_fuel_mono)
      with l show ?thesis by simp
    next
      case arr
      from ihe [OF arr(7)] have l: "length r < length q"
        and e: "parse_elements (length q - length r) [] q = Some (ys, r)" by simp_all
      have "parse_value (Suc (length q - length r)) s = Some (j, r)"
        using sk arr e by simp
      moreover have "Suc (length q - length r) \<le> length s - length r" using l lq by simp
      ultimately have "parse_value (length s - length r) s = Some (j, r)"
        by (rule parse_value_fuel_mono)
      with l lq show ?thesis by simp
    next
      case obj
      from ihm [OF obj(8)] have l: "length r < length q"
        and e: "parse_members (length q - length r) [] q = Some (ms, r)" by simp_all
      have "parse_value (Suc (length q - length r)) s = Some (j, r)"
        using sk obj e by simp
      moreover have "Suc (length q - length r) \<le> length s - length r" using l lq by simp
      ultimately have "parse_value (length s - length r) s = Some (j, r)"
        by (rule parse_value_fuel_mono)
      with l lq show ?thesis by simp
    qed
  qed
  have 2: "length r < length s \<and> parse_elements (length s - length r) acc s = Some (xs, r)"
    if pe: "parse_elements (Suc n) acc s = Some (xs, r)"
  proof -
    from pe obtain v r1 c r2 where
      pv: "parse_value n s = Some (v, r1)" and sk: "skip_ws r1 = c # r2"
      and rest: "(c = CHR '','' \<and> parse_elements n (acc @ [v]) r2 = Some (xs, r))
               \<or> (c \<noteq> CHR '','' \<and> c = CHR '']'' \<and> xs = acc @ [v] \<and> r = r2)"
      by (auto split: option.splits list.splits if_splits)
    from ihv [OF pv] have l1: "length r1 < length s"
      and v: "parse_value (length s - length r1) s = Some (v, r1)" by simp_all
    have l2: "length r2 < length r1" using sk by (rule skip_ws_Cons_length)
    from rest show ?thesis
    proof
      assume a: "c = CHR '','' \<and> parse_elements n (acc @ [v]) r2 = Some (xs, r)"
      with ihe [of "acc @ [v]" r2 xs r] have l3: "length r < length r2"
        and e: "parse_elements (length r2 - length r) (acc @ [v]) r2 = Some (xs, r)" by simp_all
      let ?k = "length s - length r - 1"
      have "parse_value ?k s = Some (v, r1)"
        using v by (rule parse_value_fuel_mono) (use l1 l2 l3 in simp)
      moreover have "parse_elements ?k (acc @ [v]) r2 = Some (xs, r)"
        using e by (rule parse_elements_fuel_mono) (use l1 l2 l3 in simp)
      ultimately have "parse_elements (Suc ?k) acc s = Some (xs, r)"
        using sk a by simp
      moreover have "length s - length r = Suc ?k" using l1 l2 l3 by simp
      ultimately have "parse_elements (length s - length r) acc s = Some (xs, r)" by (simp only:)
      then show ?thesis using l1 l2 l3 by simp
    next
      assume a: "c \<noteq> CHR '','' \<and> c = CHR '']'' \<and> xs = acc @ [v] \<and> r = r2"
      let ?k = "length s - length r - 1"
      have "parse_value ?k s = Some (v, r1)"
        using v by (rule parse_value_fuel_mono) (use l1 l2 a in simp)
      then have "parse_elements (Suc ?k) acc s = Some (xs, r)"
        using sk a by simp
      moreover have "length s - length r = Suc ?k" using l1 l2 a by simp
      ultimately have "parse_elements (length s - length r) acc s = Some (xs, r)" by (simp only:)
      then show ?thesis using l1 l2 a by simp
    qed
  qed
  have 3: "length r < length s \<and> parse_members (length s - length r) macc s = Some (kvs, r)"
    if pm: "parse_members (Suc n) macc s = Some (kvs, r)"
  proof -
    from pm obtain q k r1 r2 v r3 c r4 where
      sp: "strip_prefix [CHR 0x22] (skip_ws s) = Some q" and pc: "parse_chars q = Some (k, r1)"
      and sp2: "strip_prefix '':'' (skip_ws r1) = Some r2"
      and pv: "parse_value n r2 = Some (v, r3)" and sk: "skip_ws r3 = c # r4"
      and rest: "(c = CHR '','' \<and> parse_members n (AList.update k v macc) r4 = Some (kvs, r))
               \<or> (c \<noteq> CHR '','' \<and> c = CHR ''}'' \<and> kvs = AList.update k v macc \<and> r = r4)"
      by (auto split: option.splits list.splits if_splits)
    have lq: "length q < length s"
      using strip_prefix_length [OF sp] skip_ws_length [of s] by simp
    have l1: "length r1 < length q" using pc by (rule parse_chars_length)
    have l2: "length r2 < length r1"
      using strip_prefix_length [OF sp2] skip_ws_length [of r1] by simp
    from ihv [OF pv] have l3: "length r3 < length r2"
      and v: "parse_value (length r2 - length r3) r2 = Some (v, r3)" by simp_all
    have l4: "length r4 < length r3" using sk by (rule skip_ws_Cons_length)
    let ?k = "length s - length r - 1"
    from rest show ?thesis
    proof
      assume a: "c = CHR '','' \<and> parse_members n (AList.update k v macc) r4 = Some (kvs, r)"
      with ihm [of "AList.update k v macc" r4 kvs r] have l5: "length r < length r4"
        and e: "parse_members (length r4 - length r) (AList.update k v macc) r4 = Some (kvs, r)"
        by simp_all
      have "parse_value ?k r2 = Some (v, r3)"
        using v by (rule parse_value_fuel_mono) (use lq l1 l2 l3 l4 l5 in simp)
      moreover have "parse_members ?k (AList.update k v macc) r4 = Some (kvs, r)"
        using e by (rule parse_members_fuel_mono) (use lq l1 l2 l3 l4 l5 in simp)
      ultimately have "parse_members (Suc ?k) macc s = Some (kvs, r)"
        using sp pc sp2 sk a by simp
      moreover have "length s - length r = Suc ?k" using lq l1 l2 l3 l4 l5 by simp
      ultimately have "parse_members (length s - length r) macc s = Some (kvs, r)" by (simp only:)
      then show ?thesis using lq l1 l2 l3 l4 l5 by simp
    next
      assume a: "c \<noteq> CHR '','' \<and> c = CHR ''}'' \<and> kvs = AList.update k v macc \<and> r = r4"
      have "parse_value ?k r2 = Some (v, r3)"
        using v by (rule parse_value_fuel_mono) (use lq l1 l2 l3 l4 a in simp)
      then have "parse_members (Suc ?k) macc s = Some (kvs, r)"
        using sp pc sp2 sk a by simp
      moreover have "length s - length r = Suc ?k" using lq l1 l2 l3 l4 a by simp
      ultimately have "parse_members (length s - length r) macc s = Some (kvs, r)" by (simp only:)
      then show ?thesis using lq l1 l2 l3 l4 a by simp
    qed
  qed
  from 1 2 3 show ?case by blast
qed

lemma JSON_parse_adequate:
  assumes "parse_value n s = Some (j, r)" and "skip_ws r = []"
  shows "JSON_parse s = Some j"
proof -
  from parse_consumes_all [of n s j r] assms(1)
  have "parse_value (length s - length r) s = Some (j, r)" by blast
  then have "parse_value (length s) s = Some (j, r)"
    by (rule parse_value_fuel_mono) simp
  with assms(2) show ?thesis by (simp add: JSON_parse_def)
qed

section \<open>Properties of the heap\<close>

text \<open>
  What a value denotes is stable when the heap grows and when the bound grows
  (\<open>to_json_mono\<close>); \<open>of_json\<close> only appends to the heap, and the value it returns denotes the
  tree it was given (\<open>JSON_value_of_json\<close>).
\<close>

lemma those_map_mono:
  "those (map f xs) = Some ys \<Longrightarrow> (\<And>x y. x \<in> set xs \<Longrightarrow> f x = Some y \<Longrightarrow> g x = Some y) \<Longrightarrow>
     those (map g xs) = Some ys"
proof (induction xs arbitrary: ys)
  case Nil
  then show ?case by simp
next
  case (Cons x xs)
  from Cons.prems(1) obtain y ys' where y: "f x = Some y" "those (map f xs) = Some ys'" "ys = y # ys'"
    by (auto split: option.splits)
  have "g x = Some y" using Cons.prems(2) y(1) by simp
  moreover have "those (map g xs) = Some ys'"
    using Cons.IH [OF y(2)] Cons.prems(2) by simp
  ultimately show ?case using y(3) by simp
qed

lemma to_json_mono:
  "to_json n h v = Some j \<Longrightarrow> n \<le> m \<Longrightarrow> to_json m (h @ ext) v = Some j"
proof (induction n arbitrary: v j m)
  case 0
  then show ?case by (cases m; cases v) simp_all
next
  case (Suc n)
  then obtain m' where m: "m = Suc m'" "n \<le> m'" by (cases m) auto
  show ?case
  proof (cases v)
    case (VRef a)
    with Suc.prems(1) have a: "a < length h" by (simp split: if_splits)
    then have nth: "(h @ ext) ! a = h ! a" by (simp add: nth_append)
    show ?thesis
    proof (cases "h ! a")
      case (OArray vs)
      with Suc.prems(1) VRef a obtain js where
        js: "those (map (to_json n h) vs) = Some js" "j = JArray js" by auto
      have "those (map (to_json m' (h @ ext)) vs) = Some js"
        using js(1) by (rule those_map_mono) (rule Suc.IH [OF _ m(2)])
      then show ?thesis using VRef a nth OArray js(2) m(1) by simp
    next
      case (OObject fs)
      with Suc.prems(1) VRef a obtain js where
        js: "those (map (\<lambda>(k, v). map_option (Pair k) (to_json n h v)) fs) = Some js"
          "j = JObject js" by auto
      have "those (map (\<lambda>(k, v). map_option (Pair k) (to_json m' (h @ ext) v)) fs) = Some js"
        using js(1)
      proof (rule those_map_mono)
        fix x y
        assume "(case x of (k, v) \<Rightarrow> map_option (Pair k) (to_json n h v)) = Some y"
        then obtain k v w where x: "x = (k, v)" "to_json n h v = Some w" "y = (k, w)"
          by (cases x) auto
        from Suc.IH [OF x(2) m(2)] x
        show "(case x of (k, v) \<Rightarrow> map_option (Pair k) (to_json m' (h @ ext) v)) = Some y"
          by simp
      qed
      then show ?thesis using VRef a nth OObject js(2) m(1) by simp
    qed
  qed (use Suc.prems m in simp_all)
qed

lemma of_json_extends:
  "\<exists>ext. snd (of_json j h) = h @ ext"
  "\<exists>ext. snd (of_jsons xs h) = h @ ext"
  "\<exists>ext. snd (of_members kvs h) = h @ ext"
proof (induction j h and xs h and kvs h rule: of_json_of_jsons_of_members.induct)
  case (5 xs h)
  then show ?case by (auto split: prod.splits)
next
  case (6 kvs h)
  then show ?case by (auto split: prod.splits)
next
  case (8 x xs h)
  then show ?case by (fastforce split: prod.splits)
next
  case (10 k x kvs h)
  then show ?case by (fastforce split: prod.splits)
qed simp_all

lemma of_json_length:
  "of_json j h = (v, h') \<Longrightarrow> length h \<le> length h'"
  "of_jsons xs h = (vs, h') \<Longrightarrow> length h \<le> length h'"
  "of_members kvs h = (fs, h') \<Longrightarrow> length h \<le> length h'"
  using of_json_extends(1) [of j h] of_json_extends(2) [of xs h] of_json_extends(3) [of kvs h]
  by auto

lemma to_json_of_json:
  "of_json j h = (v, h') \<Longrightarrow> to_json (length h' - length h) h' v = Some j"
  "of_jsons xs h = (vs, h') \<Longrightarrow> those (map (to_json (length h' - length h) h') vs) = Some xs"
  "of_members kvs h = (fs, h') \<Longrightarrow>
     those (map (\<lambda>(k, v). map_option (Pair k) (to_json (length h' - length h) h' v)) fs) = Some kvs"
proof (induction j h and xs h and kvs h arbitrary: v h' and vs h' and fs h'
    rule: of_json_of_jsons_of_members.induct)
  case (5 xs h)
  obtain vs h1 where al: "of_jsons xs h = (vs, h1)" by (cases "of_jsons xs h")
  with "5.prems" have v: "v = VRef (length h1)" "h' = h1 @ [OArray vs]" by simp_all
  have le: "length h \<le> length h1" using al by (rule of_json_length)
  have "those (map (to_json (length h1 - length h) h1) vs) = Some xs"
    using "5.IH" al by simp
  then have "those (map (to_json (length h1 - length h) (h1 @ [OArray vs])) vs) = Some xs"
    by (rule those_map_mono) (erule to_json_mono, rule order_refl)
  moreover have "length h' - length h = Suc (length h1 - length h)"
    using v(2) le by simp
  ultimately show ?case using v by simp
next
  case (6 kvs h)
  obtain fs h1 where al: "of_members kvs h = (fs, h1)" by (cases "of_members kvs h")
  with "6.prems" have v: "v = VRef (length h1)" "h' = h1 @ [OObject fs]" by simp_all
  have le: "length h \<le> length h1" using al by (rule of_json_length)
  have "those (map (\<lambda>(k, v). map_option (Pair k) (to_json (length h1 - length h) h1 v)) fs)
          = Some kvs"
    using "6.IH" al by simp
  then have "those (map (\<lambda>(k, v). map_option (Pair k)
               (to_json (length h1 - length h) (h1 @ [OObject fs]) v)) fs) = Some kvs"
  proof (rule those_map_mono)
    fix x y
    assume "(case x of (k, v) \<Rightarrow> map_option (Pair k) (to_json (length h1 - length h) h1 v)) = Some y"
    then obtain k v w where x: "x = (k, v)" "to_json (length h1 - length h) h1 v = Some w"
      "y = (k, w)" by (cases x) auto
    from to_json_mono [OF x(2) order_refl, of "[OObject fs]"] x
    show "(case x of (k, v) \<Rightarrow> map_option (Pair k)
             (to_json (length h1 - length h) (h1 @ [OObject fs]) v)) = Some y" by simp
  qed
  moreover have "length h' - length h = Suc (length h1 - length h)"
    using v(2) le by simp
  ultimately show ?case using v by simp
next
  case (8 x xs h)
  obtain v1 h1 where a1: "of_json x h = (v1, h1)" by (cases "of_json x h")
  obtain vs1 h2 where a2: "of_jsons xs h1 = (vs1, h2)" by (cases "of_jsons xs h1")
  from "8.prems" a1 a2 have r: "vs = v1 # vs1" "h' = h2" by simp_all
  obtain ext where ext: "h2 = h1 @ ext" using of_json_extends(2) [of xs h1] a2 by auto
  have le: "length h \<le> length h1" "length h1 \<le> length h2"
    using a1 a2 of_json_length by blast+
  have "to_json (length h1 - length h) h1 v1 = Some x" using "8.IH"(1) a1 by simp
  then have h: "to_json (length h2 - length h) h2 v1 = Some x"
    unfolding ext by (rule to_json_mono) simp
  have "those (map (to_json (length h2 - length h1) h2) vs1) = Some xs"
    using "8.IH"(2) a1 a2 by simp
  then have "those (map (to_json (length h2 - length h) h2) vs1) = Some xs"
  proof (rule those_map_mono)
    fix v y assume "to_json (length h2 - length h1) h2 v = Some y"
    from to_json_mono [OF this, of "length h2 - length h" "[]"] le
    show "to_json (length h2 - length h) h2 v = Some y" by simp
  qed
  with h r show ?case by simp
next
  case (10 k x kvs h)
  obtain v1 h1 where a1: "of_json x h = (v1, h1)" by (cases "of_json x h")
  obtain fs1 h2 where a2: "of_members kvs h1 = (fs1, h2)" by (cases "of_members kvs h1")
  from "10.prems" a1 a2 have r: "fs = (k, v1) # fs1" "h' = h2" by simp_all
  obtain ext where ext: "h2 = h1 @ ext" using of_json_extends(3) [of kvs h1] a2 by auto
  have le: "length h \<le> length h1" "length h1 \<le> length h2"
    using a1 a2 of_json_length by blast+
  have "to_json (length h1 - length h) h1 v1 = Some x" using "10.IH"(1) a1 by simp
  then have h: "to_json (length h2 - length h) h2 v1 = Some x"
    unfolding ext by (rule to_json_mono) simp
  have "those (map (\<lambda>(k, v). map_option (Pair k) (to_json (length h2 - length h1) h2 v)) fs1)
          = Some kvs"
    using "10.IH"(2) a1 a2 by simp
  then have "those (map (\<lambda>(k, v). map_option (Pair k) (to_json (length h2 - length h) h2 v)) fs1)
          = Some kvs"
  proof (rule those_map_mono)
    fix p y
    assume "(case p of (k, v) \<Rightarrow> map_option (Pair k) (to_json (length h2 - length h1) h2 v)) = Some y"
    then obtain k' v w where p: "p = (k', v)" "to_json (length h2 - length h1) h2 v = Some w"
      "y = (k', w)" by (cases p) auto
    from to_json_mono [OF p(2), of "length h2 - length h" "[]"] le p
    show "(case p of (k, v) \<Rightarrow> map_option (Pair k) (to_json (length h2 - length h) h2 v)) = Some y"
      by simp
  qed
  with h r show ?case by simp
qed simp_all

lemma JSON_value_of_json: "of_json j h = (v, h') \<Longrightarrow> JSON_value h' v = Some j"
proof -
  assume a: "of_json j h = (v, h')"
  from to_json_mono [OF to_json_of_json(1) [OF a], of "length h'" "[]"]
  show ?thesis by (simp add: JSON_value_def)
qed

subsection \<open>The bound of \<open>JSON_value\<close> is enough\<close>

text \<open>
  A tree is larger than each of its elements, so along a chain of references the trees that
  the addresses denote shrink, and the addresses differ: a value that denotes a tree \<open>j\<close>
  needs no more of the bound than there are addresses denoting trees no larger than \<open>j\<close>.
\<close>

lemma to_json_fuel_mono: "to_json n h v = Some j \<Longrightarrow> n \<le> m \<Longrightarrow> to_json m h v = Some j"
  using to_json_mono [of n h v j m "[]"] by simp

lemma to_json_unique: "to_json n h v = Some j \<Longrightarrow> to_json m h v = Some j' \<Longrightarrow> j = j'"
  using to_json_fuel_mono [of n h v j "max n m"] to_json_fuel_mono [of m h v j' "max n m"]
  by simp

lemma those_map_Some_nth:
  "those (map f xs) = Some ys \<Longrightarrow> length ys = length xs \<and> (\<forall>i < length xs. f (xs ! i) = Some (ys ! i))"
proof (induction xs arbitrary: ys)
  case Nil
  then show ?case by simp
next
  case (Cons x xs)
  from Cons.prems obtain y ys' where y: "f x = Some y" "those (map f xs) = Some ys'" "ys = y # ys'"
    by (auto split: option.splits)
  from Cons.IH [OF y(2)] y(1,3) show ?case by (auto simp: nth_Cons split: nat.splits)
qed

lemma those_map_SomeI:
  "length ys = length xs \<Longrightarrow> (\<And>i. i < length xs \<Longrightarrow> f (xs ! i) = Some (ys ! i)) \<Longrightarrow>
     those (map f xs) = Some ys"
proof (induction xs arbitrary: ys)
  case Nil
  then show ?case by simp
next
  case (Cons x xs)
  then obtain y ys' where ys: "ys = y # ys'" by (cases ys) auto
  have "f x = Some y" using Cons.prems(2) [of 0] ys by simp
  moreover have "those (map f xs) = Some ys'"
  proof (rule Cons.IH)
    show "length ys' = length xs" using Cons.prems(1) ys by simp
    fix i assume "i < length xs"
    then show "f (xs ! i) = Some (ys' ! i)" using Cons.prems(2) [of "Suc i"] ys by simp
  qed
  ultimately show ?case using ys by simp
qed

lemma those_map_mono_mem:
  "those (map f xs) = Some ys \<Longrightarrow>
   (\<And>x y. x \<in> set xs \<Longrightarrow> y \<in> set ys \<Longrightarrow> f x = Some y \<Longrightarrow> g x = Some y) \<Longrightarrow>
   those (map g xs) = Some ys"
proof (induction xs arbitrary: ys)
  case Nil
  then show ?case by simp
next
  case (Cons x xs)
  from Cons.prems(1) obtain y ys' where y: "f x = Some y" "those (map f xs) = Some ys'" "ys = y # ys'"
    by (auto split: option.splits)
  have "g x = Some y" using Cons.prems(2) [of x y] y(1,3) by simp
  moreover have "those (map g xs) = Some ys'"
    using y(2)
  proof (rule Cons.IH)
    fix x' y' assume "x' \<in> set xs" "y' \<in> set ys'" "f x' = Some y'"
    then show "g x' = Some y'" using Cons.prems(2) [of x' y'] y(3) by simp
  qed
  ultimately show ?case using y(3) by simp
qed

lemma size_json_element: "x \<in> set xs \<Longrightarrow> size x < size (JArray xs)"
  using size_list_estimation' [of x xs "size x" size] by simp

lemma size_json_member: "(k, x) \<in> set kvs \<Longrightarrow> size x < size (JObject kvs)"
  using size_list_estimation' [of "(k, x)" kvs "size x" "size_prod (\<lambda>_. 0) size"] by simp

lemma to_json_prim: "\<forall>a. v \<noteq> VRef a \<Longrightarrow> to_json n h v = to_json m h v"
  by (cases n; cases m; cases v) simp_all

lemma denoting_finite: "finite (denoting h k)"
  by (rule finite_subset [of _ "{..<length h}"]) (auto simp: denoting_def)

lemma denoting_card: "card (denoting h k) \<le> length h"
proof -
  have "card (denoting h k) \<le> card {..<length h}"
    by (rule card_mono) (auto simp: denoting_def)
  then show ?thesis by simp
qed

lemma denoting_less:
  assumes "to_json n h (VRef a) = Some j" and "size y < size j"
  shows "card (denoting h (size y)) < card (denoting h (size j))"
proof (rule psubset_card_mono [OF denoting_finite])
  have a: "a < length h" using assms(1) by (cases n) (simp_all split: if_splits)
  have "a \<in> denoting h (size j)" unfolding denoting_def using assms(1) a by blast
  moreover have "a \<notin> denoting h (size y)"
  proof
    assume "a \<in> denoting h (size y)"
    then obtain m t where "to_json m h (VRef a) = Some t" "size t \<le> size y"
      unfolding denoting_def by blast
    with assms to_json_unique [of n h "VRef a" j m t] show False by simp
  qed
  moreover have "denoting h (size y) \<subseteq> denoting h (size j)"
    using assms(2) by (fastforce simp: denoting_def)
  ultimately show "denoting h (size y) \<subset> denoting h (size j)" by blast
qed

lemma to_json_fuel_denoting:
  "to_json n h v = Some j \<Longrightarrow> to_json (card (denoting h (size j))) h v = Some j"
proof (induction n arbitrary: v j)
  case 0
  then have "\<forall>a. v \<noteq> VRef a" by (cases v) simp_all
  from to_json_prim [OF this] 0 show ?case by metis
next
  case (Suc n)
  show ?case
  proof (cases v)
    case (VRef a)
    with Suc.prems have a: "a < length h" by (simp split: if_splits)
    have top: "to_json (Suc n) h (VRef a) = Some j" using Suc.prems VRef by simp
    have sub: "to_json (card (denoting h (size j)) - 1) h x = Some y"
      if "to_json n h x = Some y" "size y < size j" for x y
    proof -
      have "card (denoting h (size y)) \<le> card (denoting h (size j)) - 1"
        using denoting_less [OF top that(2)] by simp
      with Suc.IH [OF that(1)] show ?thesis by (rule to_json_fuel_mono)
    qed
    have "a \<in> denoting h (size j)" unfolding denoting_def using top a by blast
    then have "0 < card (denoting h (size j))"
      using denoting_finite [of h "size j"] by (auto simp: card_gt_0_iff)
    then have pos: "card (denoting h (size j)) = Suc (card (denoting h (size j)) - 1)"
      by simp
    show ?thesis
    proof (cases "h ! a")
      case (OArray vs)
      with top a obtain js where js: "those (map (to_json n h) vs) = Some js" "j = JArray js"
        by auto
      have "those (map (to_json (card (denoting h (size j)) - 1) h) vs) = Some js"
        using js(1)
      proof (rule those_map_mono_mem)
        fix x y assume "y \<in> set js" "to_json n h x = Some y"
        then show "to_json (card (denoting h (size j)) - 1) h x = Some y"
          using sub [of x y] size_json_element [of y js] js(2) by simp
      qed
      then show ?thesis using VRef a OArray js(2) by (subst pos) simp
    next
      case (OObject fs)
      with top a obtain kvs where
        kvs: "those (map (\<lambda>(k, v). map_option (Pair k) (to_json n h v)) fs) = Some kvs"
          "j = JObject kvs"
        by auto
      have "those (map (\<lambda>(k, v). map_option (Pair k)
              (to_json (card (denoting h (size j)) - 1) h v)) fs) = Some kvs"
        using kvs(1)
      proof (rule those_map_mono_mem)
        fix p q
        assume q: "q \<in> set kvs"
          and f: "(case p of (k, v) \<Rightarrow> map_option (Pair k) (to_json n h v)) = Some q"
        then obtain k x y where p: "p = (k, x)" "to_json n h x = Some y" "q = (k, y)"
          by (cases p) auto
        have "size y < size j" using q p(3) kvs(2) size_json_member [of k y kvs] by simp
        from sub [OF p(2) this] p
        show "(case p of (k, v) \<Rightarrow> map_option (Pair k)
                 (to_json (card (denoting h (size j)) - 1) h v)) = Some q"
          by simp
      qed
      then show ?thesis using VRef a OObject kvs(2) by (subst pos) simp
    qed
  next
    case VNull
    then have "\<forall>a. v \<noteq> VRef a" by simp
    from to_json_prim [OF this] Suc.prems show ?thesis by metis
  next
    case (VBool b)
    then have "\<forall>a. v \<noteq> VRef a" by simp
    from to_json_prim [OF this] Suc.prems show ?thesis by metis
  next
    case (VNum i)
    then have "\<forall>a. v \<noteq> VRef a" by simp
    from to_json_prim [OF this] Suc.prems show ?thesis by metis
  next
    case (VStr s)
    then have "\<forall>a. v \<noteq> VRef a" by simp
    from to_json_prim [OF this] Suc.prems show ?thesis by metis
  qed
qed

lemma JSON_value_adequate: "to_json n h v = Some j \<Longrightarrow> JSON_value h v = Some j"
  unfolding JSON_value_def
  using to_json_fuel_mono [OF to_json_fuel_denoting denoting_card] .

section \<open>Properties of DataManager\<close>

text \<open>
  The browser path of the load operations, case by case: a stored string that parses, and
  a missing, empty or unparseable one.
\<close>

lemma loadData_browser_stored:
  assumes "electronAPI s = None" "localStorage s ''data/perfectWoodData.json'' = Some t" "t \<noteq> []"
    "JSON_parse t = Some j"
  shows "result_json (loadData s) = Some j"
proof -
  obtain v h' where a: "of_json j (heap s) = (v, h')" by (cases "of_json j (heap s)")
  have "loadData s = (v, s\<lparr>heap := h'\<rparr>)"
    using assms a by (simp add: loadData_def loadData_try_def parse_into_def)
  then show ?thesis using JSON_value_of_json [OF a] by (simp add: result_json_def)
qed


lemma to_json_members_mono:
  assumes "those (map (\<lambda>(k, v). map_option (Pair k) (to_json n h v)) fs) = Some kvs" and "n \<le> m"
  shows "those (map (\<lambda>(k, v). map_option (Pair k) (to_json m (h @ ext) v)) fs) = Some kvs"
  using assms(1)
proof (rule those_map_mono)
  fix x y
  assume "(case x of (k, v) \<Rightarrow> map_option (Pair k) (to_json n h v)) = Some y"
  then obtain k v w where x: "x = (k, v)" "to_json n h v = Some w" "y = (k, w)"
    by (cases x) auto
  from to_json_mono [OF x(2) assms(2), of ext] x
  show "(case x of (k, v) \<Rightarrow> map_option (Pair k) (to_json m (h @ ext) v)) = Some y" by simp
qed

lemma JSON_value_fields:
  assumes "JSON_value h (VRef a) = Some (JObject kvs)"
  shows "\<exists>fs. a < length h \<and> h ! a = OObject fs
           \<and> those (map (\<lambda>(k, v). map_option (Pair k) (JSON_value h v)) fs) = Some kvs"
proof -
  from assms obtain n where n: "length h = Suc n"
    by (cases "length h") (simp_all add: JSON_value_def)
  from assms n have a: "a < length h"
    by (simp add: JSON_value_def split: if_splits)
  from assms n a obtain fs where fs: "h ! a = OObject fs"
    "those (map (\<lambda>(k, v). map_option (Pair k) (to_json n h v)) fs) = Some kvs"
    by (cases "h ! a") (auto simp: JSON_value_def)
  have "those (map (\<lambda>(k, v). map_option (Pair k) (to_json (length h) (h @ []) v)) fs) = Some kvs"
    using fs(2) by (rule to_json_members_mono) (simp add: n)
  then show ?thesis using a fs(1) by (simp add: JSON_value_def)
qed








text \<open>The migration writes the three new keys only, and a second run writes the same again.\<close>

lemma migrate_localStorage:
  "localStorage (migrateFromLocalStorage s) =
     setItem_if (localStorage s ''supplierTransactions'') ''data/supplierTransactions.json''
       (setItem_if (localStorage s ''customerTransactions'') ''data/customerTransactions.json''
         (setItem_if (localStorage s ''perfectWoodData'') ''data/perfectWoodData.json''
           (localStorage s)))"
  by (simp add: migrateFromLocalStorage_def Let_def)

lemma migrate_other:
  "electronAPI (migrateFromLocalStorage s) = electronAPI s"
  "heap (migrateFromLocalStorage s) = heap s"
  "host (migrateFromLocalStorage s) = host s"
  "defaultData (migrateFromLocalStorage s) = defaultData s"
  by (simp_all add: migrateFromLocalStorage_def Let_def)

lemma setItem_if_other: "k \<noteq> key \<Longrightarrow> setItem_if e key ls k = ls k"
  by (simp add: setItem_if_def split: option.splits)

lemma setItem_if_same: "setItem_if (Some t) key ls key = (if t \<noteq> [] then Some t else ls key)"
  by (simp add: setItem_if_def)

lemma migrate_legacy_keys:
  "localStorage (migrateFromLocalStorage s) ''perfectWoodData'' = localStorage s ''perfectWoodData''"
  "localStorage (migrateFromLocalStorage s) ''customerTransactions'' = localStorage s ''customerTransactions''"
  "localStorage (migrateFromLocalStorage s) ''supplierTransactions'' = localStorage s ''supplierTransactions''"
  by (simp_all add: migrate_localStorage setItem_if_other)

lemma setItem_if_idem: "setItem_if e key (setItem_if e key ls) = setItem_if e key ls"
  by (simp add: setItem_if_def split: option.splits)

lemma setItem_if_commute:
  "k1 \<noteq> k2 \<Longrightarrow> setItem_if e1 k1 (setItem_if e2 k2 ls) = setItem_if e2 k2 (setItem_if e1 k1 ls)"
  by (auto simp: setItem_if_def fun_upd_twist split: option.splits)

lemma migrate_idem: "migrateFromLocalStorage (migrateFromLocalStorage s) = migrateFromLocalStorage s"
proof -
  let ?a = "setItem_if (localStorage s ''perfectWoodData'') ''data/perfectWoodData.json''"
  let ?b = "setItem_if (localStorage s ''customerTransactions'') ''data/customerTransactions.json''"
  let ?c = "setItem_if (localStorage s ''supplierTransactions'') ''data/supplierTransactions.json''"
  have ab: "?a (?b x) = ?b (?a x)" for x by (rule setItem_if_commute) simp
  have ac: "?a (?c x) = ?c (?a x)" for x by (rule setItem_if_commute) simp
  have bc: "?b (?c x) = ?c (?b x)" for x by (rule setItem_if_commute) simp
  have "?c (?b (?a (?c (?b (?a (localStorage s)))))) = ?c (?b (?a (localStorage s)))"
    by (simp only: ab ac bc setItem_if_idem)
  then have "localStorage (migrateFromLocalStorage (migrateFromLocalStorage s))
      = localStorage (migrateFromLocalStorage s)"
    by (simp add: migrate_localStorage [of "migrateFromLocalStorage s"] migrate_legacy_keys)
       (simp add: migrate_localStorage)
  then show ?thesis
    by (simp add: migrateFromLocalStorage_def Let_def)
qed

text \<open>
  Reading the properties of an object that denotes a tree: present exactly when the tree has
  the property, denoting its value, and truthy exactly when that value is.
\<close>

lemma truthy_to_json: "to_json n h v = Some x \<Longrightarrow> truthy v = json_truthy x"
  by (cases n; cases v) (auto split: if_splits obj.splits)

lemma members_lookup:
  assumes "those (map (\<lambda>(k, v). map_option (Pair k) (f v)) fs) = Some kvs"
  shows "(case map_of fs k of
            None \<Rightarrow> map_of kvs k = None
          | Some v \<Rightarrow> \<exists>x. f v = Some x \<and> map_of kvs k = Some x)"
  using assms
proof (induction fs arbitrary: kvs)
  case Nil
  then show ?case by simp
next
  case (Cons p fs)
  obtain k' v' where p: "p = (k', v')" by (cases p)
  from Cons.prems p obtain x' kvs' where
    x: "f v' = Some x'" "those (map (\<lambda>(k, v). map_option (Pair k) (f v)) fs) = Some kvs'"
      "kvs = (k', x') # kvs'"
    by (auto split: option.splits)
  show ?case using Cons.IH [OF x(2)] x(1,3) p by (auto split: option.splits)
qed

lemma get_prop_object:
  assumes "JSON_value h imp = Some (JObject kvs)"
  shows "\<exists>vo. get_prop h imp k = Inr vo
           \<and> (case vo of
                 None \<Rightarrow> map_of kvs k = None
               | Some v \<Rightarrow> \<exists>x. JSON_value h v = Some x \<and> map_of kvs k = Some x)"
proof -
  from assms obtain a where a: "imp = VRef a"
    by (cases imp; cases "length h") (simp_all add: JSON_value_def)
  from JSON_value_fields [OF assms [unfolded a]] obtain fs where
    fs: "a < length h" "h ! a = OObject fs"
      "those (map (\<lambda>(k, v). map_option (Pair k) (JSON_value h v)) fs) = Some kvs"
    by blast
  have "get_prop h imp k = Inr (map_of fs k)" using a fs(1,2) by simp
  then show ?thesis using members_lookup [OF fs(3), of k] by simp
qed

lemma get_prop_truthy:
  assumes "JSON_value h imp = Some (JObject kvs)"
  shows "\<exists>vo. get_prop h imp k = Inr vo \<and> truthy_opt vo = json_truthy_opt (map_of kvs k)"
proof -
  from get_prop_object [OF assms, of k] obtain vo where
    vo: "get_prop h imp k = Inr vo"
      "(case vo of None \<Rightarrow> map_of kvs k = None
        | Some v \<Rightarrow> \<exists>x. JSON_value h v = Some x \<and> map_of kvs k = Some x)"
    by blast
  have "truthy_opt vo = json_truthy_opt (map_of kvs k)"
    using vo(2) by (cases vo) (auto simp: truthy_opt_def json_truthy_opt_def JSON_value_def
        dest: truthy_to_json)
  with vo(1) show ?thesis by blast
qed

lemma validate_import_object:
  assumes "JSON_value h imp = Some (JObject kvs)"
  shows "validate_import h imp =
           (if import_valid kvs then Inr () else Inl (Error ''Invalid data structure''))"
proof -
  obtain p where p: "get_prop h imp ''products'' = Inr p"
    "truthy_opt p = json_truthy_opt (map_of kvs ''products'')"
    using get_prop_truthy [OF assms] by blast
  obtain c where c: "get_prop h imp ''customers'' = Inr c"
    "truthy_opt c = json_truthy_opt (map_of kvs ''customers'')"
    using get_prop_truthy [OF assms] by blast
  obtain sl where sl: "get_prop h imp ''sellers'' = Inr sl"
    "truthy_opt sl = json_truthy_opt (map_of kvs ''sellers'')"
    using get_prop_truthy [OF assms] by blast
  show ?thesis
    by (simp add: validate_import_def import_valid_def p c sl)
qed

lemma parse_into_object:
  assumes "JSON_parse text = Some j"
  shows "\<exists>imp h1. parse_into text s = (Inr imp, s\<lparr>heap := h1\<rparr>) \<and> JSON_value h1 imp = Some j
           \<and> (\<exists>ext. h1 = heap s @ ext)"
proof -
  obtain imp h1 where a: "of_json j (heap s) = (imp, h1)" by (cases "of_json j (heap s)")
  have "parse_into text s = (Inr imp, s\<lparr>heap := h1\<rparr>)"
    using assms a by (simp add: parse_into_def)
  moreover have "\<exists>ext. h1 = heap s @ ext" using of_json_extends(1) [of j "heap s"] a by simp
  ultimately show ?thesis using JSON_value_of_json [OF a] by blast
qed

lemma importData_invalid:
  assumes "JSON_parse text = Some (JObject kvs)" and "\<not> import_valid kvs"
  shows "fst (importData (Some text) s) = Inl (Error ''Invalid data structure'')
       \<and> localStorage (snd (importData (Some text) s)) = localStorage s
       \<and> host (snd (importData (Some text) s)) = host s"
proof -
  from parse_into_object [OF assms(1), of s] obtain imp h1 where
    p: "parse_into text s = (Inr imp, s\<lparr>heap := h1\<rparr>)" "JSON_value h1 imp = Some (JObject kvs)"
    by blast
  have "importData (Some text) s = (Inl (Error ''Invalid data structure''), s\<lparr>heap := h1\<rparr>)"
    using assms(2) by (simp add: importData_def importData_onload_def p(1)
        validate_import_object [OF p(2)])
  then show ?thesis by simp
qed













text \<open>
  The other ways an import ends: \<^verbatim>\<open>null\<close> has no properties to read (a \<^verbatim>\<open>TypeError\<close>), any
  other value that is no object lacks the three fields, and a file that cannot be read or
  parsed is rejected before anything is looked at. None of them writes.
\<close>

lemma importData_null:
  assumes "JSON_parse text = Some JNull"
  shows "importData (Some text) s = (Inl TypeError, s)"
  using assms
  by (simp add: importData_def importData_onload_def parse_into_def validate_import_def)

lemma importData_not_object:
  assumes "JSON_parse text = Some j" and "j \<noteq> JNull" and "\<forall>kvs. j \<noteq> JObject kvs"
  shows "fst (importData (Some text) s) = Inl (Error ''Invalid data structure'')
       \<and> localStorage (snd (importData (Some text) s)) = localStorage s
       \<and> host (snd (importData (Some text) s)) = host s"
  using assms
  by (cases j)
     (auto simp: importData_def importData_onload_def parse_into_def validate_import_def
        truthy_opt_def split: prod.splits)

lemma importData_unreadable: "importData None s = (Inl (Error ''Error reading file''), s)"
  by (simp add: importData_def)

lemma importData_not_JSON:
  "JSON_parse text = None \<Longrightarrow> importData (Some text) s = (Inl SyntaxError, s)"
  by (simp add: importData_def importData_onload_def parse_into_def)

text \<open>
  Under Electron, when the host's result has no \<^verbatim>\<open>data\<close>, \<^verbatim>\<open>loadData\<close> returns \<^verbatim>\<open>defaultData\<close>
  itself; and \<^verbatim>\<open>initialize\<close> does nothing. In a browser, \<^verbatim>\<open>initialize\<close> copies each populated
  legacy key and touches no other key.
\<close>

lemma loadData_electron_no_data:
  assumes "electronAPI s = Some api" and "api_loadData api (host s) = (Inr (JObject []), hs)"
  shows "fst (loadData s) = VRef (defaultData s)"
  using assms
  by (simp add: loadData_def loadData_try_def host_loadData_def)

lemma initialize_copies_each:
  assumes "electronAPI s = None"
  shows "localStorage (initialize s) ''data/perfectWoodData.json'' =
           (case localStorage s ''perfectWoodData'' of
              None \<Rightarrow> localStorage s ''data/perfectWoodData.json''
            | Some t \<Rightarrow> if t \<noteq> [] then Some t else localStorage s ''data/perfectWoodData.json'')"
    and "localStorage (initialize s) ''data/customerTransactions.json'' =
           (case localStorage s ''customerTransactions'' of
              None \<Rightarrow> localStorage s ''data/customerTransactions.json''
            | Some t \<Rightarrow> if t \<noteq> [] then Some t else localStorage s ''data/customerTransactions.json'')"
    and "localStorage (initialize s) ''data/supplierTransactions.json'' =
           (case localStorage s ''supplierTransactions'' of
              None \<Rightarrow> localStorage s ''data/supplierTransactions.json''
            | Some t \<Rightarrow> if t \<noteq> [] then Some t else localStorage s ''data/supplierTransactions.json'')"
    and "k \<notin> {''data/perfectWoodData.json'', ''data/customerTransactions.json'',
               ''data/supplierTransactions.json''} \<Longrightarrow>
         localStorage (initialize s) k = localStorage s k"
  using assms
  by (auto simp: initialize_def migrate_localStorage setItem_if_def split: option.splits)

lemma initialize_electron: "electronAPI s = Some api \<Longrightarrow> initialize s = s"
  by (simp add: initialize_def)

text \<open>
  What the module does on the Electron path: \<^verbatim>\<open>saveData\<close> passes its argument to the host and
  reports whether the host accepted it, without touching \<^verbatim>\<open>localStorage\<close>; the load operations
  return the field of the host's result when it is truthy, and a rejection by the host gives
  the copy of \<^verbatim>\<open>defaultData\<close>. Whether the host returns what it was given is up to the host.
\<close>

lemma host_loadData_object:
  assumes "api_loadData api (host s) = (Inr j, hs)"
  shows "\<exists>result h'. host_loadData api s = (Inr result, s\<lparr>host := hs, heap := h'\<rparr>)
           \<and> JSON_value h' result = Some j"
proof -
  obtain v h' where a: "of_json j (heap s) = (v, h')" by (cases "of_json j (heap s)")
  have "host_loadData api s = (Inr v, s\<lparr>host := hs, heap := h'\<rparr>)"
    using assms a by (simp add: host_loadData_def)
  then show ?thesis using JSON_value_of_json [OF a] by blast
qed

lemma loadData_electron_data:
  assumes "electronAPI s = Some api"
    and "api_loadData api (host s) = (Inr (JObject res), hs)"
    and "map_of res ''data'' = Some j" and "json_truthy j"
  shows "result_json (loadData s) = Some j"
proof -
  from host_loadData_object [OF assms(2)] obtain result h' where
    r: "host_loadData api s = (Inr result, s\<lparr>host := hs, heap := h'\<rparr>)"
       "JSON_value h' result = Some (JObject res)"
    by blast
  from get_prop_object [OF r(2), of "''data''"] assms(3) obtain d where
    d: "get_prop h' result ''data'' = Inr (Some d)" "JSON_value h' d = Some j"
    by (auto split: option.splits)
  have "truthy d" using d(2) assms(4) truthy_to_json [of "length h'" h' d j]
    by (simp add: JSON_value_def)
  then have "loadData s = (d, s\<lparr>host := hs, heap := h'\<rparr>)"
    using assms(1) r(1) d(1) by (simp add: loadData_def loadData_try_def)
  then show ?thesis using d(2) by (simp add: result_json_def)
qed

lemma loadTransactions_electron_field:
  assumes "electronAPI s = Some api"
    and "api_loadData api (host s) = (Inr (JObject res), hs)"
    and "map_of res field = Some j" and "json_truthy j"
  shows "result_json (loadTransactions field key s) = Some j"
proof -
  from host_loadData_object [OF assms(2)] obtain result h' where
    r: "host_loadData api s = (Inr result, s\<lparr>host := hs, heap := h'\<rparr>)"
       "JSON_value h' result = Some (JObject res)"
    by blast
  from get_prop_object [OF r(2), of field] assms(3) obtain d where
    d: "get_prop h' result field = Inr (Some d)" "JSON_value h' d = Some j"
    by (auto split: option.splits)
  have "truthy d" using d(2) assms(4) truthy_to_json [of "length h'" h' d j]
    by (simp add: JSON_value_def)
  then have "loadTransactions field key s = (d, s\<lparr>host := hs, heap := h'\<rparr>)"
    using assms(1) r(1) d(1) by (simp add: loadTransactions_def loadTransactions_try_def)
  then show ?thesis using d(2) by (simp add: result_json_def)
qed

lemma saveData_electron:
  assumes "electronAPI s = Some api"
  shows "saveData D s =
           (case api_saveData api (heap s) D (host s) of
              (Inl e, hs) \<Rightarrow> (False, s\<lparr>host := hs\<rparr>)
            | (Inr u, hs) \<Rightarrow> (True, s\<lparr>host := hs\<rparr>))"
    and "localStorage (snd (saveData D s)) = localStorage s"
  using assms by (auto simp: saveData_def split: prod.splits sum.splits)

lemma loadData_electron_rejected:
  assumes "electronAPI s = Some api" and "api_loadData api (host s) = (Inl e, hs)"
  shows "loadData s = copy_defaultData (s\<lparr>host := hs\<rparr>)"
  using assms by (simp add: loadData_def loadData_try_def host_loadData_def)

section \<open>The claims\<close>

text \<open>
  The claims are about the browser backend, whose code is all in the module, unless a theorem
  says otherwise: \<open>electronAPI s = None\<close>. Under Electron every operation hands over to
  \<^verbatim>\<open>window.electronAPI\<close>, of which the module fixes nothing; what the module itself does on
  that path is in the lemmas just above.
\<close>

subsection \<open>C1: a saved Dataset is loaded back\<close>



subsection \<open>C2: an import that lacks a required field is rejected and writes nothing\<close>

text \<open>
  C2. For every import object in which at least one of the three required fields \<^verbatim>\<open>products\<close>,
  \<^verbatim>\<open>customers\<close>, \<^verbatim>\<open>sellers\<close> is absent, \<^verbatim>\<open>importData\<close> rejects with the error whose message is
  "Invalid data structure", and the backend is unchanged after the rejected call. Proved for
  both backends: \<open>localStorage\<close> is the same and so is the state of the host (no call reaches
  it). The error is a plain \<^verbatim>\<open>Error\<close>; the module has no error class of its own.
\<close>

theorem importData_missing_field:
  assumes "JSON_parse text = Some (JObject kvs)"
    and "''products'' \<notin> fst ` set kvs \<or> ''customers'' \<notin> fst ` set kvs
         \<or> ''sellers'' \<notin> fst ` set kvs"
  shows "fst (importData (Some text) s) = Inl (Error ''Invalid data structure'')
       \<and> localStorage (snd (importData (Some text) s)) = localStorage s
       \<and> host (snd (importData (Some text) s)) = host s"
proof -
  have "map_of kvs k = None" if "k \<notin> fst ` set kvs" for k
    using that by (simp add: map_of_eq_None_iff)
  then have "\<not> import_valid kvs"
    using assms(2) by (auto simp: import_valid_def json_truthy_opt_def)
  with assms(1) show ?thesis by (rule importData_invalid)
qed

lemma parse_missing_sellers_text:
  "JSON_parse missing_sellers_text =
     Some (JObject [(''products'', JArray [JObject [(''id'', JNum 1)]]), (''customers'', JArray [])])"
  unfolding missing_sellers_text_def by code_simp

text \<open>An import without \<^verbatim>\<open>sellers\<close>, into a browser that holds all three documents.\<close>

theorem importData_missing_field_witness:
  "JSON_parse missing_sellers_text =
     Some (JObject [(''products'', JArray [JObject [(''id'', JNum 1)]]), (''customers'', JArray [])])
   \<and> ''sellers'' \<notin> fst ` set [(''products'', JArray [JObject [(''id'', JNum 1)]]),
                               (''customers'', JArray [])]
   \<and> fst (importData (Some missing_sellers_text) example_state) = Inl (Error ''Invalid data structure'')
   \<and> localStorage (snd (importData (Some missing_sellers_text) example_state))
       = localStorage example_state
   \<and> host (snd (importData (Some missing_sellers_text) example_state)) = host example_state"
proof -
  have m: "''sellers'' \<notin> fst ` set [(''products'', JArray [JObject [(''id'', JNum 1)]]),
                                    (''customers'', JArray [])]"
    by simp
  then have "''products'' \<notin> fst ` set [(''products'', JArray [JObject [(''id'', JNum 1)]]),
                                         (''customers'', JArray [])]
      \<or> ''customers'' \<notin> fst ` set [(''products'', JArray [JObject [(''id'', JNum 1)]]),
                                      (''customers'', JArray [])]
      \<or> ''sellers'' \<notin> fst ` set [(''products'', JArray [JObject [(''id'', JNum 1)]]),
                                    (''customers'', JArray [])]"
    by blast
  from importData_missing_field [OF parse_missing_sellers_text this, of example_state]
  show ?thesis using parse_missing_sellers_text m by simp
qed

subsection \<open>C3: the value loaded from an empty backend shares its arrays with \<^verbatim>\<open>defaultData\<close>\<close>

text \<open>
  C3. On an empty backend \<^verbatim>\<open>loadData()\<close> returns a value deep-equal to the Default Dataset,
  and a fresh copy on every call: mutating any part of it, its inner arrays included, changes
  neither \<^verbatim>\<open>defaultData\<close> nor the result of a later \<^verbatim>\<open>loadData()\<close>.

  The first half holds and the second does not. \<^verbatim>\<open>{ ...this.defaultData }\<close> copies one level:
  the object returned is new (address 6, not 5), but its \<^verbatim>\<open>products\<close> is the very array of
  \<^verbatim>\<open>defaultData\<close> (address 0). After the caller's \<^verbatim>\<open>push(1)\<close> on it, \<^verbatim>\<open>defaultData\<close> itself and the
  next value loaded from the still empty backend both have \<^verbatim>\<open>products\<close> equal to \<^verbatim>\<open>[1]\<close>.
  (Under Electron \<^verbatim>\<open>loadData\<close> hands out \<^verbatim>\<open>defaultData\<close> itself: \<open>loadData_electron_no_data\<close>.)
\<close>

theorem loadData_default_shares_arrays:
  "localStorage initial_state = Map.empty
   \<and> fst (loadData initial_state) = VRef 6
   \<and> result_json (loadData initial_state) = Some (JObject default_fields)
   \<and> get_prop (heap (snd (loadData initial_state))) (fst (loadData initial_state)) ''products''
       = Inr (Some (VRef 0))
   \<and> get_prop (heap initial_state) (VRef (defaultData initial_state)) ''products''
       = Inr (Some (VRef 0))
   \<and> localStorage pushed_state = Map.empty
   \<and> JSON_value (heap pushed_state) (VRef (defaultData pushed_state))
       = Some (JObject ((''products'', JArray [JNum 1]) # tl default_fields))
   \<and> result_json (loadData pushed_state)
       = Some (JObject ((''products'', JArray [JNum 1]) # tl default_fields))"
proof -
  have 1: "localStorage initial_state = Map.empty" by (simp add: initial_state_def)
  have 2: "fst (loadData initial_state) = VRef 6"
    unfolding initial_state_def by code_simp
  have 3: "result_json (loadData initial_state) = Some (JObject default_fields)"
    unfolding initial_state_def default_fields_def by code_simp
  have 4: "get_prop (heap (snd (loadData initial_state))) (fst (loadData initial_state)) ''products''
       = Inr (Some (VRef 0))"
    unfolding initial_state_def by code_simp
  have 5: "get_prop (heap initial_state) (VRef (defaultData initial_state)) ''products''
       = Inr (Some (VRef 0))"
    unfolding initial_state_def by code_simp
  have 6: "localStorage pushed_state = Map.empty"
    by (simp add: pushed_state_def array_push_def initial_state_def loadData_def loadData_try_def
        copy_defaultData_def Let_def split: obj.splits)
  have 7: "JSON_value (heap pushed_state) (VRef (defaultData pushed_state))
       = Some (JObject ((''products'', JArray [JNum 1]) # tl default_fields))"
    unfolding pushed_state_def initial_state_def default_fields_def by code_simp
  have 8: "result_json (loadData pushed_state)
       = Some (JObject ((''products'', JArray [JNum 1]) # tl default_fields))"
    unfolding pushed_state_def initial_state_def default_fields_def by code_simp
  from 1 2 3 4 5 6 7 8 show ?thesis by blast
qed

subsection \<open>C4: the load operations return what is stored, whatever its shape\<close>






subsection \<open>C5: a corrupt stored value loads as the default\<close>



subsection \<open>C6: an import of the three core fields leaves the transaction logs alone\<close>


lemma parse_example_text: "JSON_parse example_text = Some example_json"
  unfolding example_text_def example_json_def by code_simp


subsection \<open>C7: a saved transaction log is loaded back\<close>



subsection \<open>C8: after \<^verbatim>\<open>clearAllData\<close> the loads return the defaults\<close>



subsection \<open>C9: the legacy migration copies, and may run twice\<close>

text \<open>
  C9. In a browser where the legacy key \<^verbatim>\<open>perfectWoodData\<close> is populated, \<^verbatim>\<open>initialize\<close> copies
  its value to the new key and leaves the legacy key as it was, so \<^verbatim>\<open>loadData()\<close> then returns
  the legacy value; and a second run of \<^verbatim>\<open>initialize\<close> changes nothing. Populated means that
  the string is not empty, and the legacy value is the tree \<open>j\<close> that it parses to. The copy
  is made whether or not the new key is absent, so the theorem does not ask for that.
\<close>

theorem initialize_migrates_legacy:
  assumes "electronAPI s = None"
    and "localStorage s ''perfectWoodData'' = Some t" and "t \<noteq> []"
    and "JSON_parse t = Some j"
  shows "localStorage (initialize s) ''data/perfectWoodData.json'' = Some t
       \<and> localStorage (initialize s) ''perfectWoodData'' = Some t
       \<and> result_json (loadData (initialize s)) = Some j
       \<and> initialize (initialize s) = initialize s"
proof -
  have i: "initialize s = migrateFromLocalStorage s" using assms(1) by (simp add: initialize_def)
  have new: "localStorage (initialize s) ''data/perfectWoodData.json'' = Some t"
    using assms(2,3) by (simp add: i migrate_localStorage setItem_if_other setItem_if_same)
  have old: "localStorage (initialize s) ''perfectWoodData'' = Some t"
    using assms(2) by (simp add: i migrate_legacy_keys)
  have b: "electronAPI (initialize s) = None" using assms(1) by (simp add: i migrate_other)
  have ld: "result_json (loadData (initialize s)) = Some j"
    by (rule loadData_browser_stored [OF b new assms(3,4)])
  have "initialize (initialize s) = initialize s"
    using b by (simp add: initialize_def [of "initialize s"]) (simp add: i migrate_idem)
  with new old ld show ?thesis by simp
qed

text \<open>The example Dataset under the legacy key, and nothing under the new one.\<close>

theorem initialize_migrates_legacy_witness:
  "electronAPI legacy_state = None
   \<and> localStorage legacy_state ''perfectWoodData'' = Some example_text
   \<and> localStorage legacy_state ''data/perfectWoodData.json'' = None
   \<and> example_text \<noteq> []
   \<and> JSON_parse example_text = Some example_json
   \<and> localStorage (initialize legacy_state) ''data/perfectWoodData.json'' = Some example_text
   \<and> localStorage (initialize legacy_state) ''perfectWoodData'' = Some example_text
   \<and> result_json (loadData (initialize legacy_state)) = Some example_json
   \<and> initialize (initialize legacy_state) = initialize legacy_state"
proof -
  have b: "electronAPI legacy_state = None" by (simp add: legacy_state_def initial_state_def)
  have l: "localStorage legacy_state ''perfectWoodData'' = Some example_text"
    by (simp add: legacy_state_def)
  have n: "localStorage legacy_state ''data/perfectWoodData.json'' = None"
    by (simp add: legacy_state_def)
  have e: "example_text \<noteq> []" by (simp add: example_text_def)
  show ?thesis
    using initialize_migrates_legacy [OF b l e parse_example_text] b l n e parse_example_text
    by simp
qed

subsection \<open>C10: a falsy required field counts as absent\<close>




end
